theory Spec2Isabelle
  imports Complex_Main "HOL-Library.Monad_Syntax" "HOL-Library.AList"
begin

section \<open>Tensors\<close>

text \<open>
  A tensor is its shape together with its elements in row-major (logical) order, the
  order in which the tensor library enumerates a tensor whatever its strides are.
  Every operation that the library refuses (it raises an exception) returns \<open>None\<close>.
  Sizes, window sizes, head counts and scale factors are natural numbers; a negative
  window size or head count would make the first \<open>reshape\<close> it reaches raise.
\<close>

record 'a tensor =
  shape :: "nat list"
  data :: "'a list"

definition wf_tensor :: "'a tensor \<Rightarrow> bool" where
  "wf_tensor x \<longleftrightarrow> length (data x) = prod_list (shape x)"

text \<open>Row-major offset of a multi-index, and the multi-index of an offset.\<close>

fun ravel :: "nat list \<Rightarrow> nat list \<Rightarrow> nat" where
  "ravel (d # ds) (i # js) = i * prod_list ds + ravel ds js"
| "ravel _ _ = 0"

fun unravel :: "nat list \<Rightarrow> nat \<Rightarrow> nat list" where
  "unravel [] n = []"
| "unravel (d # ds) n = (n div prod_list ds) # unravel ds (n mod prod_list ds)"

text \<open>
  \<open>gather x s f\<close> is the tensor of shape \<open>s\<close> whose element at multi-index \<open>j\<close> is the
  element of \<open>x\<close> at multi-index \<open>f j\<close>: the common form of every view that only
  re-orders axes.
\<close>

definition gather :: "'a tensor \<Rightarrow> nat list \<Rightarrow> (nat list \<Rightarrow> nat list) \<Rightarrow> 'a tensor" where
  "gather x s f =
     \<lparr>shape = s,
      data = map (\<lambda>m. data x ! ravel (shape x) (f (unravel s m))) [0..<prod_list s]\<rparr>"

text \<open>\<open>Tensor.reshape\<close>: the same elements in the same order under a new shape.\<close>

definition reshape :: "'a tensor \<Rightarrow> nat list \<Rightarrow> 'a tensor option" where
  "reshape x s =
     (if prod_list s = prod_list (shape x) then Some \<lparr>shape = s, data = data x\<rparr> else None)"

text \<open>
  \<open>Tensor.permute\<close>: axis \<open>k\<close> of the result is axis \<open>p ! k\<close> of the argument, so the
  element at \<open>j\<close> of the result is the element at \<open>i\<close> of the argument where
  \<open>i ! (p ! k) = j ! k\<close>.
\<close>

definition index_of :: "nat \<Rightarrow> nat list \<Rightarrow> nat" where
  "index_of d p = length (takeWhile (\<lambda>e. e \<noteq> d) p)"

definition inv_perm :: "nat list \<Rightarrow> nat list" where
  "inv_perm p = map (\<lambda>d. index_of d p) [0..<length p]"

definition permute :: "'a tensor \<Rightarrow> nat list \<Rightarrow> 'a tensor option" where
  "permute x p =
     (if sort p = [0..<length (shape x)]
      then Some (gather x (map (\<lambda>k. shape x ! k) p) (\<lambda>j. map (\<lambda>k. j ! k) (inv_perm p)))
      else None)"

text \<open>
  Python's negative dimensions: a dimension \<open>d\<close> of a tensor of rank \<open>n\<close> must lie in
  \<open>[-n, n - 1]\<close> (rank 0 counts as rank 1 here), and a negative one counts from the end.
\<close>

definition wrap_dim :: "int \<Rightarrow> nat \<Rightarrow> nat option" where
  "wrap_dim d n =
     (let m = int (max n 1)
      in if - m \<le> d \<and> d < m then Some (nat (if d < 0 then d + m else d)) else None)"

definition swap_at :: "nat \<Rightarrow> nat \<Rightarrow> 'b list \<Rightarrow> 'b list" where
  "swap_at a b xs = xs[a := xs ! b, b := xs ! a]"

text \<open>\<open>Tensor.transpose(dim0, dim1)\<close>: the two axes exchanged.\<close>

definition transpose_t :: "'a tensor \<Rightarrow> int \<Rightarrow> int \<Rightarrow> 'a tensor option" where
  "transpose_t x dim0 dim1 =
     do {
       a \<leftarrow> wrap_dim dim0 (length (shape x));
       b \<leftarrow> wrap_dim dim1 (length (shape x));
       if length (shape x) = 0 then Some x
       else Some (gather x (swap_at a b (shape x)) (swap_at a b))
     }"

text \<open>\<open>Tensor.flatten(start_dim)\<close>: the axes from \<open>start_dim\<close> to the last merged into one.\<close>

definition flatten_t :: "'a tensor \<Rightarrow> int \<Rightarrow> 'a tensor option" where
  "flatten_t x start_dim =
     do {
       a \<leftarrow> wrap_dim start_dim (length (shape x));
       Some \<lparr>shape = take a (shape x) @ [prod_list (drop a (shape x))], data = data x\<rparr>
     }"

text \<open>\<open>Tensor.unflatten(dim, sizes)\<close>: one axis split into axes of the given sizes.\<close>

definition unflatten_t :: "'a tensor \<Rightarrow> int \<Rightarrow> nat list \<Rightarrow> 'a tensor option" where
  "unflatten_t x d sizes =
     do {
       a \<leftarrow> wrap_dim d (length (shape x));
       if length (shape x) = 0 \<or> sizes = [] \<or> prod_list sizes \<noteq> shape x ! a then None
       else Some \<lparr>shape = take a (shape x) @ sizes @ drop (Suc a) (shape x), data = data x\<rparr>
     }"

section \<open>Spatial reshaping utilities\<close>

text \<open>
  \<open>window_partition\<close>: the shape is unpacked into exactly four names (a tensor of any
  other rank raises), and \<open>//\<close> by a zero window size raises.
\<close>

definition window_partition :: "'a tensor \<Rightarrow> nat \<Rightarrow> 'a tensor option" where
  "window_partition x window_size =
     (case shape x of
        [B, C, H, W] \<Rightarrow>
          if window_size ^ 2 = 0 then None
          else do {
            let num_windows = H * W div window_size ^ 2;
            x1 \<leftarrow> reshape x [B, C, H div window_size, window_size, W div window_size, window_size];
            x2 \<leftarrow> permute x1 [0, 1, 2, 4, 3, 5];
            x3 \<leftarrow> reshape x2 [B, C, num_windows, window_size, window_size];
            permute x3 [0, 2, 1, 3, 4]
          }
      | _ \<Rightarrow> None)"

definition window_unpartition :: "'a tensor \<Rightarrow> nat \<Rightarrow> nat \<Rightarrow> 'a tensor option" where
  "window_unpartition x H W =
     (case shape x of
        [B, nw, C, window_size, ws'] \<Rightarrow>
          do {
            x1 \<leftarrow> permute x [0, 2, 1, 3, 4];
            if window_size = 0 then None
            else do {
              x2 \<leftarrow> reshape x1 [B, C, H div window_size, W div window_size, window_size, window_size];
              x3 \<leftarrow> permute x2 [0, 1, 2, 4, 3, 5];
              reshape x3 [B, C, H, W]
            }
          }
      | _ \<Rightarrow> None)"

definition spatial_flatten :: "'a tensor \<Rightarrow> 'a tensor option" where
  "spatial_flatten x = do { y \<leftarrow> flatten_t x (- 2); transpose_t y (- 2) (- 1) }"

definition spatial_unflatten :: "'a tensor \<Rightarrow> nat \<Rightarrow> nat \<Rightarrow> 'a tensor option" where
  "spatial_unflatten x H W = do { y \<leftarrow> transpose_t x (- 2) (- 1); unflatten_t y (- 1) [H, W] }"

section \<open>Numeric operations of the tensor library\<close>

text \<open>
  Tensor elements are modelled as real numbers: the layers below are the mathematical
  functions that the library's floating-point kernels approximate. Rounding, overflow
  and the non-finite values of floating point are outside this model.
\<close>

definition tmap :: "('a \<Rightarrow> 'b) \<Rightarrow> 'a tensor \<Rightarrow> 'b tensor" where
  "tmap f x = \<lparr>shape = shape x, data = map f (data x)\<rparr>"

text \<open>A tensor and a Python number: \<open>x - c\<close>, \<open>x + c\<close>, \<open>x / c\<close>, element by element.\<close>

definition sub_scalar :: "real tensor \<Rightarrow> real \<Rightarrow> real tensor" where
  "sub_scalar x c = tmap (\<lambda>v. v - c) x"

definition add_scalar :: "real tensor \<Rightarrow> real \<Rightarrow> real tensor" where
  "add_scalar x c = tmap (\<lambda>v. v + c) x"

definition div_scalar :: "real tensor \<Rightarrow> real \<Rightarrow> real tensor" where
  "div_scalar x c = tmap (\<lambda>v. v / c) x"

text \<open>
  Broadcasting: shapes are aligned at their last axes; two sizes are compatible when
  they are equal or one of them is 1.
\<close>

fun broadcast_rev :: "nat list \<Rightarrow> nat list \<Rightarrow> nat list option" where
  "broadcast_rev [] ys = Some ys"
| "broadcast_rev (a # as) [] = Some (a # as)"
| "broadcast_rev (a # as) (b # bs) =
     (if a = b \<or> b = 1 then map_option ((#) a) (broadcast_rev as bs)
      else if a = 1 then map_option ((#) b) (broadcast_rev as bs)
      else None)"

definition broadcast_shapes :: "nat list \<Rightarrow> nat list \<Rightarrow> nat list option" where
  "broadcast_shapes s t = map_option rev (broadcast_rev (rev s) (rev t))"

definition expand :: "'a tensor \<Rightarrow> nat list \<Rightarrow> 'a tensor" where
  "expand x s =
     gather x s (\<lambda>j. map2 (\<lambda>d i. if d = 1 then 0 else i) (shape x)
                        (drop (length s - length (shape x)) j))"

text \<open>\<open>x + y\<close> on two tensors.\<close>

definition tadd :: "real tensor \<Rightarrow> real tensor \<Rightarrow> real tensor option" where
  "tadd x y =
     do {
       s \<leftarrow> broadcast_shapes (shape x) (shape y);
       Some \<lparr>shape = s, data = map2 (+) (data (expand x s)) (data (expand y s))\<rparr>
     }"

text \<open>Indexing the first axis with an integer, \<open>x[k]\<close>.\<close>

definition select :: "'a tensor \<Rightarrow> nat \<Rightarrow> 'a tensor option" where
  "select x k =
     (case shape x of
        [] \<Rightarrow> None
      | d # s \<Rightarrow>
          if k < d
          then Some \<lparr>shape = s, data = take (prod_list s) (drop (k * prod_list s) (data x))\<rparr>
          else None)"

text \<open>The rows along the last axis: \<open>n\<close> consecutive pieces of length \<open>k\<close>.\<close>

definition rows_of :: "nat \<Rightarrow> nat \<Rightarrow> 'a list \<Rightarrow> 'a list list" where
  "rows_of n k xs = map (\<lambda>r. take k (drop (r * k) xs)) [0..<n]"

definition dot :: "real list \<Rightarrow> real list \<Rightarrow> real" where
  "dot xs ys = sum_list (map2 (*) xs ys)"

text \<open>
  \<open>torch.matmul\<close> on operands of rank at least two: the matrices of the last two axes
  are multiplied batch by batch. Both operands of every product in this program are
  slices of one tensor, so their batch axes coincide; operands of rank below two, or
  with different batch axes, are not part of this model and give \<open>None\<close>.
\<close>

definition matmul :: "real tensor \<Rightarrow> real tensor \<Rightarrow> real tensor option" where
  "matmul a b =
     (let ra = length (shape a); rb = length (shape b)
      in if ra < 2 \<or> rb < 2 then None
         else
           let batch = take (ra - 2) (shape a);
               m = shape a ! (ra - 2); k = shape a ! (ra - 1);
               k' = shape b ! (rb - 2); n = shape b ! (rb - 1)
           in if take (rb - 2) (shape b) \<noteq> batch \<or> k \<noteq> k' then None
              else Some
                \<lparr>shape = batch @ [m, n],
                 data = map (\<lambda>e. case unravel [prod_list batch, m, n] e of
                             [t, i, j] \<Rightarrow>
                               sum_list (map (\<lambda>l. data a ! ((t * m + i) * k + l) *
                                                 data b ! ((t * k + l) * n + j)) [0..<k])
                           | _ \<Rightarrow> 0)
                          [0..<prod_list batch * m * n]\<rparr>)"

text \<open>Entry \<open>e\<close> (row-major) of the product of \<open>m \<times> k\<close> by \<open>k \<times> n\<close> matrices in batches.\<close>

definition matmul_entry :: "real list \<Rightarrow> real list \<Rightarrow> nat \<Rightarrow> nat \<Rightarrow> nat \<Rightarrow> nat \<Rightarrow> real" where
  "matmul_entry da db m k n e =
     sum_list (map (\<lambda>l. da ! ((e div (m * n) * m + e mod (m * n) div n) * k + l) *
                          db ! ((e div (m * n) * k + l) * n + e mod (m * n) mod n)) [0..<k])"

text \<open>\<open>F.softmax(x, -1)\<close>: every row along the last axis is normalised.\<close>

definition softmax_row :: "real list \<Rightarrow> real list" where
  "softmax_row r = map (\<lambda>v. exp v / sum_list (map exp r)) r"

definition softmax_last :: "real tensor \<Rightarrow> real tensor" where
  "softmax_last x =
     (if shape x = [] then \<lparr>shape = [], data = concat (map softmax_row [data x])\<rparr>
      else \<lparr>shape = shape x,
            data = concat (map softmax_row
                     (rows_of (prod_list (butlast (shape x))) (last (shape x)) (data x)))\<rparr>)"

text \<open>
  \<open>nn.Linear\<close>: a weight of shape \<open>(out_features, in_features)\<close> and a bias of shape
  \<open>(out_features)\<close>, applied to the last axis.
\<close>

record linear_layer =
  lin_weight :: "real tensor"
  lin_bias :: "real tensor"

definition linear :: "linear_layer \<Rightarrow> real tensor \<Rightarrow> real tensor option" where
  "linear l x =
     (case shape (lin_weight l) of
        [out_f, in_f] \<Rightarrow>
          if shape x = [] \<or> last (shape x) \<noteq> in_f \<or> shape (lin_bias l) \<noteq> [out_f] then None
          else Some
            \<lparr>shape = butlast (shape x) @ [out_f],
             data = concat (map (\<lambda>row. map (\<lambda>j. dot row (take in_f (drop (j * in_f) (data (lin_weight l))))
                                                + data (lin_bias l) ! j) [0..<out_f])
                      (rows_of (prod_list (butlast (shape x))) in_f (data x)))\<rparr>
      | _ \<Rightarrow> None)"

text \<open>
  \<open>nn.LayerNorm(dim)\<close>: each row along the last axis is centred, divided by the square
  root of its (biased) variance plus \<open>eps\<close>, then scaled and shifted element-wise.
\<close>

record norm_layer =
  ln_weight :: "real tensor"
  ln_bias :: "real tensor"
  ln_eps :: real

definition mean :: "real list \<Rightarrow> real" where
  "mean xs = sum_list xs / real (length xs)"

definition layer_norm_row :: "norm_layer \<Rightarrow> real list \<Rightarrow> real list" where
  "layer_norm_row l row =
     (let mu = mean row; var = mean (map (\<lambda>v. (v - mu) ^ 2) row)
      in map (\<lambda>(v, i). (v - mu) / sqrt (var + ln_eps l) * data (ln_weight l) ! i
                          + data (ln_bias l) ! i)
           (zip row [0..<length row]))"

definition layer_norm :: "norm_layer \<Rightarrow> real tensor \<Rightarrow> real tensor option" where
  "layer_norm l x =
     (case shape (ln_weight l) of
        [d] \<Rightarrow>
          if shape x = [] \<or> last (shape x) \<noteq> d \<or> shape (ln_bias l) \<noteq> [d] then None
          else Some
            \<lparr>shape = shape x,
             data = concat (map (layer_norm_row l)
                      (rows_of (prod_list (butlast (shape x))) d (data x)))\<rparr>
      | _ \<Rightarrow> None)"

text \<open>
  \<open>nn.Conv2d\<close> with square stride and zero padding, on a batched \<open>(B, C, H, W)\<close> or an
  unbatched \<open>(C, H, W)\<close> input; the weight has shape \<open>(out, in, kh, kw)\<close>. The library
  refuses a weight without output channels or without input channels, an input whose
  channel count is not the weight's, and a kernel larger than the padded input.
\<close>

record conv_layer =
  cv_weight :: "real tensor"
  cv_bias :: "real tensor"
  cv_stride :: nat
  cv_padding :: nat

definition padded_read :: "real tensor \<Rightarrow> nat \<Rightarrow> nat \<Rightarrow> nat \<Rightarrow> nat \<Rightarrow> nat \<Rightarrow> real" where
  "padded_read x p b c r q =
     (case shape x of
        [B, C, H, W] \<Rightarrow>
          if p \<le> r \<and> r < H + p \<and> p \<le> q \<and> q < W + p
          then data x ! ravel [B, C, H, W] [b, c, r - p, q - p] else 0
      | _ \<Rightarrow> 0)"

definition conv2d_batched :: "conv_layer \<Rightarrow> real tensor \<Rightarrow> real tensor option" where
  "conv2d_batched l x =
     (case (shape (cv_weight l), shape x) of
        ([Co, Ci, kh, kw], [B, C, H, W]) \<Rightarrow>
          let s = cv_stride l; p = cv_padding l
          in if Co = 0 \<or> Ci = 0 \<or> C \<noteq> Ci \<or> shape (cv_bias l) \<noteq> [Co] \<or> s = 0 \<or>
                H + 2 * p < kh \<or> W + 2 * p < kw
             then None
             else
               let Ho = (H + 2 * p - kh) div s + 1; Wo = (W + 2 * p - kw) div s + 1
               in Some
                 \<lparr>shape = [B, Co, Ho, Wo],
                  data = map (\<lambda>e. case unravel [B, Co, Ho, Wo] e of
                              [b, oc, i, j] \<Rightarrow>
                                data (cv_bias l) ! oc +
                                sum_list (map (\<lambda>t. case unravel [Ci, kh, kw] t of
                                             [c, u, v] \<Rightarrow>
                                               padded_read x p b c (i * s + u) (j * s + v) *
                                               data (cv_weight l) ! ravel [Co, Ci, kh, kw] [oc, c, u, v]
                                           | _ \<Rightarrow> 0)
                                          [0..<Ci * kh * kw])
                            | _ \<Rightarrow> 0)
                           [0..<B * Co * Ho * Wo]\<rparr>
      | _ \<Rightarrow> None)"

definition conv2d :: "conv_layer \<Rightarrow> real tensor \<Rightarrow> real tensor option" where
  "conv2d l x =
     (if length (shape x) = 3
      then do {
        y \<leftarrow> conv2d_batched l \<lparr>shape = 1 # shape x, data = data x\<rparr>;
        Some \<lparr>shape = tl (shape y), data = data y\<rparr>
      }
      else conv2d_batched l x)"

text \<open>
  \<open>nn.PixelShuffle(r)\<close>: \<open>(*, C * r\<^sup>2, H, W)\<close> becomes \<open>(*, C, H * r, W * r)\<close>; the element
  at channel \<open>c\<close>, row \<open>h * r + i\<close>, column \<open>w * r + j\<close> is the input element at channel
  \<open>c * r\<^sup>2 + i * r + j\<close>, row \<open>h\<close>, column \<open>w\<close>.
\<close>

definition pixel_shuffle :: "nat \<Rightarrow> 'a tensor \<Rightarrow> 'a tensor option" where
  "pixel_shuffle r x =
     (let n = length (shape x)
      in if n < 3 \<or> r = 0 then None
         else
           let C = shape x ! (n - 3); H = shape x ! (n - 2); W = shape x ! (n - 1)
           in if C mod (r * r) \<noteq> 0 then None
              else Some (gather x (take (n - 3) (shape x) @ [C div (r * r), H * r, W * r])
                     (\<lambda>j. take (n - 3) j @
                          [j ! (n - 3) * (r * r) + (j ! (n - 2) mod r) * r + j ! (n - 1) mod r,
                           j ! (n - 2) div r, j ! (n - 1) div r])))"

text \<open>
  \<open>nn.AdaptiveAvgPool2d(1)\<close>: for output size 1 the library takes the mean over the last
  two axes and keeps them with size 1, whatever the rank (at least two) and the sizes
  are. The mean of an empty plane is the floating-point value \<open>nan\<close> there; the real
  numbers have no such value, and \<open>mean []\<close> is \<open>0 / 0 = 0\<close> here.
\<close>

definition adaptive_avg_pool_1 :: "real tensor \<Rightarrow> real tensor option" where
  "adaptive_avg_pool_1 x =
     (let n = length (shape x)
      in if n < 2 then None
         else
           let hw = shape x ! (n - 2) * shape x ! (n - 1)
           in Some \<lparr>shape = take (n - 2) (shape x) @ [1, 1],
                    data = map mean (rows_of (prod_list (take (n - 2) (shape x))) hw (data x))\<rparr>)"
text \<open>\<open>Tensor.unsqueeze(d)\<close> and \<open>Tensor.squeeze(d)\<close> for a non-negative axis \<open>d\<close>.\<close>

definition unsqueeze :: "'a tensor \<Rightarrow> nat \<Rightarrow> 'a tensor option" where
  "unsqueeze x d =
     (if d \<le> length (shape x)
      then Some \<lparr>shape = take d (shape x) @ [1] @ drop d (shape x), data = data x\<rparr>
      else None)"

definition squeeze :: "'a tensor \<Rightarrow> nat \<Rightarrow> 'a tensor option" where
  "squeeze x d =
     (if d < max (length (shape x)) 1
      then (if d < length (shape x) \<and> shape x ! d = 1
            then Some \<lparr>shape = take d (shape x) @ drop (Suc d) (shape x), data = data x\<rparr>
            else Some x)
      else None)"

section \<open>Multi-head self-attention\<close>

text \<open>
  \<open>forward\<close> unpacks the shape into exactly four names and divides \<open>C\<close> by the number of
  heads with \<open>//\<close>, which raises for zero heads. The divisions of a tensor by \<open>L\<close> or by
  \<open>head_dim\<close> never raise; when the divisor is zero the divided tensor has no element.
\<close>

record attention =
  att_dim :: nat
  att_transposed :: bool
  att_num_heads :: nat
  att_qkv :: linear_layer
  att_out :: linear_layer

definition MultiHeadSelfAttention_forward :: "attention \<Rightarrow> real tensor \<Rightarrow> real tensor option" where
  "MultiHeadSelfAttention_forward m x =
     (case shape x of
        [B, N, L, C] \<Rightarrow>
          if att_num_heads m = 0 then None
          else do {
            let head_dim = C div att_num_heads m;
            x1 \<leftarrow> linear (att_qkv m) x;
            x2 \<leftarrow> reshape x1 [B, N, L, 3, att_num_heads m, head_dim];
            x3 \<leftarrow> permute x2 [3, 0, 1, 4, 2, 5];
            x4 \<leftarrow>
              (if att_transposed m
               then do {
                 q \<leftarrow> select x3 0;
                 qt \<leftarrow> transpose_t q (- 2) (- 1);
                 k \<leftarrow> select x3 1;
                 s \<leftarrow> matmul (div_scalar qt (real L)) (div_scalar k (real L));
                 v \<leftarrow> select x3 2;
                 vt \<leftarrow> transpose_t v (- 2) (- 1);
                 y \<leftarrow> matmul (softmax_last s) vt;
                 permute y [0, 1, 4, 2, 3]
               }
               else do {
                 q \<leftarrow> select x3 0;
                 k \<leftarrow> select x3 1;
                 kt \<leftarrow> transpose_t k (- 2) (- 1);
                 s \<leftarrow> matmul (div_scalar q (real head_dim)) (div_scalar kt (real head_dim));
                 v \<leftarrow> select x3 2;
                 y \<leftarrow> matmul (softmax_last s) v;
                 permute y [0, 1, 3, 2, 4]
               });
            x5 \<leftarrow> flatten_t x4 (- 2);
            linear (att_out m) x5
          }
      | _ \<Rightarrow> None)"

section \<open>Attention block\<close>

text \<open>
  The activation \<open>nn.GELU()\<close> is a function of the tensor library applied element by
  element; it is the field \<open>mlp_act\<close> of the block.
\<close>

record attention_block =
  window_size :: nat
  transposed :: bool
  window_attention :: attention
  mlp_fc1 :: linear_layer
  mlp_act :: "real \<Rightarrow> real"
  mlp_fc2 :: linear_layer
  norm1 :: norm_layer
  norm2 :: norm_layer

definition mlp :: "attention_block \<Rightarrow> real tensor \<Rightarrow> real tensor option" where
  "mlp m x = do { h \<leftarrow> linear (mlp_fc1 m) x; linear (mlp_fc2 m) (tmap (mlp_act m) h) }"

definition AttentionBlock_forward :: "attention_block \<Rightarrow> real tensor \<Rightarrow> real tensor option" where
  "AttentionBlock_forward m x =
     (case shape x of
        [B, C, H, W] \<Rightarrow>
          do {
            x1 \<leftarrow> (if transposed m then unsqueeze x 1 else window_partition x (window_size m));
            x2 \<leftarrow> spatial_flatten x1;
            n1 \<leftarrow> layer_norm (norm1 m) x2;
            a \<leftarrow> MultiHeadSelfAttention_forward (window_attention m) n1;
            x3 \<leftarrow> tadd x2 a;
            n2 \<leftarrow> layer_norm (norm2 m) x3;
            h \<leftarrow> mlp m n2;
            x4 \<leftarrow> tadd x3 h;
            if transposed m
            then do { x5 \<leftarrow> spatial_unflatten x4 H W; squeeze x5 1 }
            else do {
              x5 \<leftarrow> spatial_unflatten x4 (window_size m) (window_size m);
              window_unpartition x5 H W
            }
          }
      | _ \<Rightarrow> None)"

section \<open>Super-resolution network\<close>

text \<open>
  The values of the dictionary \<open>residual\<close>: the Python integer \<open>0\<close> it is created with,
  or a tensor stored later. Its keys keep their order of first insertion.
\<close>

datatype 't held = IntZero | Held 't

type_synonym residual = "(int \<times> real tensor held) list"

definition init_residual :: "int list \<Rightarrow> residual" where
  "init_residual groups = fold (\<lambda>k r. AList.update k IntZero r) groups []"

text \<open>The first inner loop: \<open>if i % step == 0: residual[step] = x\<close>; \<open>%\<close> by zero raises.\<close>

fun reset_residuals :: "nat \<Rightarrow> real tensor \<Rightarrow> int list \<Rightarrow> residual \<Rightarrow> residual option" where
  "reset_residuals i x [] r = Some r"
| "reset_residuals i x (step # steps) r =
     (if step = 0 then None
      else reset_residuals i x steps
             (if int i mod step = 0 then AList.update step (Held x) r else r))"

fun add_held :: "real tensor \<Rightarrow> real tensor held \<Rightarrow> real tensor option" where
  "add_held x IntZero = Some (add_scalar x 0)"
| "add_held x (Held y) = tadd x y"

text \<open>The second inner loop: \<open>if i % step == step - 1: x = x + residual[step]\<close>.\<close>

fun add_residuals :: "nat \<Rightarrow> int list \<Rightarrow> residual \<Rightarrow> real tensor \<Rightarrow> real tensor option" where
  "add_residuals i [] r x = Some x"
| "add_residuals i (step # steps) r x =
     (if step = 0 then None
      else if int i mod step = step - 1
      then (case map_of r step of
              None \<Rightarrow> None
            | Some h \<Rightarrow> do { x' \<leftarrow> add_held x h; add_residuals i steps r x' })
      else add_residuals i steps r x)"

text \<open>The loop over \<open>enumerate(self.blocks)\<close>, from index \<open>i\<close> on.\<close>

fun run_blocks ::
  "nat \<Rightarrow> (real tensor \<Rightarrow> real tensor option) list \<Rightarrow> real tensor \<times> residual \<Rightarrow>
   (real tensor \<times> residual) option" where
  "run_blocks i [] s = Some s"
| "run_blocks i (block # blocks) (x, r) =
     do {
       r' \<leftarrow> reset_residuals i x (map fst r) r;
       y \<leftarrow> block x;
       x' \<leftarrow> add_residuals i (map fst r') r' y;
       run_blocks (Suc i) blocks (x', r')
     }"

record transformer_sr =
  residual_groups :: "int list"
  in_conv :: conv_layer
  sr_blocks :: "(attention_block \<times> attention_block) list"
  out_conv :: conv_layer
  out_shuffle :: nat

text \<open>One element of \<open>self.blocks\<close>: a windowed block followed by a transposed one.\<close>

definition block_pair :: "attention_block \<times> attention_block \<Rightarrow> real tensor \<Rightarrow> real tensor option" where
  "block_pair p x = do { y \<leftarrow> AttentionBlock_forward (fst p) x; AttentionBlock_forward (snd p) y }"

definition TransformerSR_forward :: "transformer_sr \<Rightarrow> real tensor \<Rightarrow> real tensor option" where
  "TransformerSR_forward m x =
     do {
       let residual = init_residual (residual_groups m);
       let x0 = sub_scalar x (1 / 2);
       x1 \<leftarrow> conv2d (in_conv m) x0;
       (x2, r) \<leftarrow> run_blocks 0 (map block_pair (sr_blocks m)) (x1, residual);
       x3 \<leftarrow> conv2d (out_conv m) x2;
       x4 \<leftarrow> pixel_shuffle (out_shuffle m) x3;
       Some (add_scalar x4 (1 / 2))
     }"

section \<open>Classifier\<close>

datatype layer =
    Conv2d conv_layer
  | AttentionBlock attention_block
  | AdaptiveAvgPool2d
  | Flatten
  | Linear linear_layer

fun apply_layer :: "layer \<Rightarrow> real tensor \<Rightarrow> real tensor option" where
  "apply_layer (Conv2d l) x = conv2d l x"
| "apply_layer (AttentionBlock b) x = AttentionBlock_forward b x"
| "apply_layer AdaptiveAvgPool2d x = adaptive_avg_pool_1 x"
| "apply_layer Flatten x = flatten_t x 1"
| "apply_layer (Linear l) x = linear l x"

fun run_layers :: "layer list \<Rightarrow> real tensor \<Rightarrow> real tensor option" where
  "run_layers [] x = Some x"
| "run_layers (l # ls) x = do { y \<leftarrow> apply_layer l x; run_layers ls y }"

definition Classifier_forward :: "layer list \<Rightarrow> real tensor \<Rightarrow> real tensor option" where
  "Classifier_forward blocks x = run_layers blocks (sub_scalar x (1 / 2))"

section \<open>Constructors\<close>

text \<open>
  A constructor fixes the hyper-parameters of a module and the shapes of its parameter
  tensors; the values of the parameters are whatever the library's initialiser or a
  later training run puts there. Each constructor is therefore the predicate
  "this module is one that the constructor call can have produced".
\<close>

definition Linear_init :: "nat \<Rightarrow> nat \<Rightarrow> linear_layer \<Rightarrow> bool" where
  "Linear_init in_features out_features l \<longleftrightarrow>
     shape (lin_weight l) = [out_features, in_features] \<and> wf_tensor (lin_weight l) \<and>
     shape (lin_bias l) = [out_features] \<and> wf_tensor (lin_bias l)"

definition LayerNorm_init :: "nat \<Rightarrow> norm_layer \<Rightarrow> bool" where
  "LayerNorm_init d l \<longleftrightarrow>
     shape (ln_weight l) = [d] \<and> wf_tensor (ln_weight l) \<and>
     shape (ln_bias l) = [d] \<and> wf_tensor (ln_bias l) \<and> ln_eps l = 1 / 100000"

definition Conv2d_init :: "nat \<Rightarrow> nat \<Rightarrow> nat \<Rightarrow> nat \<Rightarrow> nat \<Rightarrow> conv_layer \<Rightarrow> bool" where
  "Conv2d_init in_channels out_channels kernel_size stride padding l \<longleftrightarrow>
     shape (cv_weight l) = [out_channels, in_channels, kernel_size, kernel_size] \<and>
     wf_tensor (cv_weight l) \<and> shape (cv_bias l) = [out_channels] \<and> wf_tensor (cv_bias l) \<and>
     cv_stride l = stride \<and> cv_padding l = padding"

definition MultiHeadSelfAttention_init :: "nat \<Rightarrow> bool \<Rightarrow> nat \<Rightarrow> attention \<Rightarrow> bool" where
  "MultiHeadSelfAttention_init d tr num_heads m \<longleftrightarrow>
     att_dim m = d \<and> att_transposed m = tr \<and> att_num_heads m = num_heads \<and>
     Linear_init d (d * 3) (att_qkv m) \<and> Linear_init d d (att_out m)"

definition AttentionBlock_init :: "nat \<Rightarrow> bool \<Rightarrow> nat \<Rightarrow> nat \<Rightarrow> attention_block \<Rightarrow> bool" where
  "AttentionBlock_init d tr ws num_heads m \<longleftrightarrow>
     window_size m = ws \<and> transposed m = tr \<and>
     MultiHeadSelfAttention_init d tr num_heads (window_attention m) \<and>
     Linear_init d (d * 4) (mlp_fc1 m) \<and> Linear_init (d * 4) d (mlp_fc2 m) \<and>
     LayerNorm_init d (norm1 m) \<and> LayerNorm_init d (norm2 m)"

definition TransformerSR_init ::
  "nat \<Rightarrow> int list \<Rightarrow> nat \<Rightarrow> nat \<Rightarrow> nat \<Rightarrow> nat \<Rightarrow> nat \<Rightarrow> nat \<Rightarrow> transformer_sr \<Rightarrow> bool" where
  "TransformerSR_init factor groups num_blocks d ws num_heads in_channels out_channels m \<longleftrightarrow>
     residual_groups m = groups \<and>
     Conv2d_init in_channels d 3 1 1 (in_conv m) \<and>
     length (sr_blocks m) = num_blocks \<and>
     list_all (\<lambda>p. AttentionBlock_init d False ws num_heads (fst p) \<and>
                   AttentionBlock_init d True ws num_heads (snd p)) (sr_blocks m) \<and>
     Conv2d_init d (factor ^ 2 * out_channels) 3 1 1 (out_conv m) \<and>
     out_shuffle m = factor"

text \<open>
  The classifier's constructor builds its list of layers in loops; the layers it
  creates are described by their constructor calls.
\<close>

datatype layer_spec =
    Conv2d_spec nat nat nat nat nat
  | AttentionBlock_spec nat bool nat nat
  | AdaptiveAvgPool2d_spec nat
  | Flatten_spec
  | Linear_spec nat nat

text \<open>Python list indexing with a non-negative index; out of range raises.\<close>

definition get :: "'a list \<Rightarrow> nat \<Rightarrow> 'a option" where
  "get xs i = (if i < length xs then Some (xs ! i) else None)"

text \<open>\<open>for _ in range(groups[i]): self.blocks += [AttentionBlock(..), AttentionBlock(..)]\<close>\<close>

fun add_pairs :: "nat \<Rightarrow> nat list \<Rightarrow> nat \<Rightarrow> nat \<Rightarrow> nat \<Rightarrow> layer_spec list \<Rightarrow> layer_spec list option" where
  "add_pairs 0 dims ws num_heads i acc = Some acc"
| "add_pairs (Suc n) dims ws num_heads i acc =
     do {
       d \<leftarrow> get dims i;
       add_pairs n dims ws num_heads i
         (acc @ [AttentionBlock_spec d False (ws div 2 ^ i) num_heads,
                 AttentionBlock_spec d True (ws div 2 ^ i) num_heads])
     }"

text \<open>\<open>for i in range(len(groups))\<close>, from index \<open>i\<close> on; the first argument is \<open>groups[i:]\<close>.\<close>

fun add_stages :: "nat list \<Rightarrow> nat list \<Rightarrow> nat \<Rightarrow> nat \<Rightarrow> nat \<Rightarrow> layer_spec list \<Rightarrow> layer_spec list option" where
  "add_stages [] dims ws num_heads i acc = Some acc"
| "add_stages (g # gs) dims ws num_heads i acc =
     do {
       acc1 \<leftarrow>
         (if i > 0
          then do { a \<leftarrow> get dims (i - 1); b \<leftarrow> get dims i; Some (acc @ [Conv2d_spec a b 2 2 0]) }
          else Some acc);
       acc2 \<leftarrow> add_pairs g dims ws num_heads i acc1;
       add_stages gs dims ws num_heads (Suc i) acc2
     }"

definition Classifier_init ::
  "nat list \<Rightarrow> nat list \<Rightarrow> nat \<Rightarrow> nat \<Rightarrow> nat \<Rightarrow> nat \<Rightarrow> layer_spec list option" where
  "Classifier_init groups dims ws num_heads num_classes in_channels =
     do {
       d0 \<leftarrow> get dims 0;
       blocks \<leftarrow> add_stages groups dims ws num_heads 0 [Conv2d_spec in_channels d0 3 1 1];
       dl \<leftarrow> (if dims = [] then None else Some (last dims));
       Some (blocks @ [AdaptiveAvgPool2d_spec 1, Flatten_spec, Linear_spec dl num_classes])
     }"

fun layer_init :: "layer_spec \<Rightarrow> layer \<Rightarrow> bool" where
  "layer_init (Conv2d_spec ci co k s p) (Conv2d l) = Conv2d_init ci co k s p l"
| "layer_init (AttentionBlock_spec d tr ws nh) (AttentionBlock b) = AttentionBlock_init d tr ws nh b"
| "layer_init (AdaptiveAvgPool2d_spec n) AdaptiveAvgPool2d = (n = 1)"
| "layer_init Flatten_spec Flatten = True"
| "layer_init (Linear_spec i k) (Linear l) = Linear_init i k l"
| "layer_init _ _ = False"

section \<open>Attention as the specification words it\<close>

text \<open>
  The query, key and value tensors of shape \<open>(B, N, heads, L, head_dim)\<close> that
  \<open>MultiHeadSelfAttention.forward\<close> obtains from its fused projection.
\<close>

definition qkv_heads ::
  "attention \<Rightarrow> real tensor \<Rightarrow> (real tensor \<times> real tensor \<times> real tensor) option" where
  "qkv_heads m x =
     (case shape x of
        [B, N, L, C] \<Rightarrow>
          if att_num_heads m = 0 then None
          else do {
            x1 \<leftarrow> linear (att_qkv m) x;
            x2 \<leftarrow> reshape x1 [B, N, L, 3, att_num_heads m, C div att_num_heads m];
            x3 \<leftarrow> permute x2 [3, 0, 1, 4, 2, 5];
            q \<leftarrow> select x3 0;
            k \<leftarrow> select x3 1;
            v \<leftarrow> select x3 2;
            Some (q, k, v)
          }
      | _ \<Rightarrow> None)"

text \<open>\<open>softmax(Q \<cdot> K\<^sup>T / c) \<cdot> V\<close>, the scores divided once by the constant \<open>c\<close>.\<close>

definition spec_standard_attention ::
  "real tensor \<Rightarrow> real tensor \<Rightarrow> real tensor \<Rightarrow> real \<Rightarrow> real tensor option" where
  "spec_standard_attention q k v c =
     do {
       kt \<leftarrow> transpose_t k (- 2) (- 1);
       s \<leftarrow> matmul q kt;
       matmul (softmax_last (div_scalar s c)) v
     }"

text \<open>\<open>softmax(Q\<^sup>T \<cdot> K / c) \<cdot> V\<^sup>T\<close>.\<close>

definition spec_transposed_attention ::
  "real tensor \<Rightarrow> real tensor \<Rightarrow> real tensor \<Rightarrow> real \<Rightarrow> real tensor option" where
  "spec_transposed_attention q k v c =
     do {
       qt \<leftarrow> transpose_t q (- 2) (- 1);
       s \<leftarrow> matmul qt k;
       vt \<leftarrow> transpose_t v (- 2) (- 1);
       matmul (softmax_last (div_scalar s c)) vt
     }"

text \<open>
  Standard attention with score divisor \<open>c\<close>, the heads moved next to their channels
  and flattened, then the output projection.
\<close>

definition spec_standard_forward :: "attention \<Rightarrow> real tensor \<Rightarrow> real \<Rightarrow> real tensor option" where
  "spec_standard_forward m x c =
     do {
       (q, k, v) \<leftarrow> qkv_heads m x;
       y \<leftarrow> spec_standard_attention q k v c;
       y1 \<leftarrow> permute y [0, 1, 3, 2, 4];
       y2 \<leftarrow> flatten_t y1 (- 2);
       linear (att_out m) y2
     }"

text \<open>
  Transposed attention with score divisor \<open>c\<close>, transposed back to
  \<open>(B, N, L, heads, head_dim)\<close>, flattened, then the output projection.
\<close>

definition spec_transposed_forward :: "attention \<Rightarrow> real tensor \<Rightarrow> real \<Rightarrow> real tensor option" where
  "spec_transposed_forward m x c =
     do {
       (q, k, v) \<leftarrow> qkv_heads m x;
       y \<leftarrow> spec_transposed_attention q k v c;
       y1 \<leftarrow> permute y [0, 1, 4, 2, 3];
       y2 \<leftarrow> flatten_t y1 (- 2);
       linear (att_out m) y2
     }"

section \<open>The classifier's layers as the specification words them\<close>

text \<open>
  Stage \<open>i\<close> with \<open>g\<close> block-pairs: after the first stage a convolution of kernel 2 and
  stride 2 from \<open>dims[i - 1]\<close> to \<open>dims[i]\<close> channels, then \<open>g\<close> pairs of a windowed and a
  transposed block at window size \<open>ws // 2\<^sup>i\<close>.
\<close>

definition spec_stage :: "nat list \<Rightarrow> nat \<Rightarrow> nat \<Rightarrow> nat \<Rightarrow> nat \<Rightarrow> layer_spec list" where
  "spec_stage dims ws num_heads i g =
     (if i > 0 then [Conv2d_spec (dims ! (i - 1)) (dims ! i) 2 2 0] else []) @
     concat (replicate g [AttentionBlock_spec (dims ! i) False (ws div 2 ^ i) num_heads,
                          AttentionBlock_spec (dims ! i) True (ws div 2 ^ i) num_heads])"

text \<open>
  The whole pipeline: the first convolution, the stages in order, global average
  pooling to \<open>1 \<times> 1\<close>, flattening, and the linear projection to the class logits.
\<close>

definition spec_classifier_layers ::
  "nat list \<Rightarrow> nat list \<Rightarrow> nat \<Rightarrow> nat \<Rightarrow> nat \<Rightarrow> nat \<Rightarrow> layer_spec list" where
  "spec_classifier_layers groups dims ws num_heads num_classes in_channels =
     [Conv2d_spec in_channels (dims ! 0) 3 1 1] @
     concat (map (\<lambda>i. spec_stage dims ws num_heads i (groups ! i)) [0..<length groups]) @
     [AdaptiveAvgPool2d_spec 1, Flatten_spec, Linear_spec (last dims) num_classes]"

section \<open>The residual schedule as the specification words it\<close>

text \<open>
  Before block \<open>i\<close>: the buffer of every period \<open>p\<close> with \<open>i % p = 0\<close> is replaced by the
  current features \<open>x\<close>; every other buffer is kept, each period having its own.
\<close>

definition spec_reset :: "nat \<Rightarrow> real tensor \<Rightarrow> residual \<Rightarrow> residual" where
  "spec_reset i x r = map (\<lambda>(p, h). (p, if int i mod p = 0 then Held x else h)) r"

text \<open>
  After block \<open>i\<close>: going through the periods in their order, the buffer of every period
  \<open>p\<close> with \<open>i % p = p - 1\<close> is added to the features.
\<close>

definition spec_close :: "nat \<Rightarrow> residual \<Rightarrow> real tensor \<Rightarrow> real tensor option" where
  "spec_close i r y =
     fold (\<lambda>(p, h) acc. acc \<bind> (\<lambda>x. if int i mod p = p - 1 then add_held x h else Some x))
          r (Some y)"

text \<open>The block-pairs from index \<open>i\<close> on: reset, run the pair, close, go on.\<close>

fun spec_run_blocks ::
  "nat \<Rightarrow> (real tensor \<Rightarrow> real tensor option) list \<Rightarrow> real tensor \<times> residual \<Rightarrow>
   (real tensor \<times> residual) option" where
  "spec_run_blocks i [] s = Some s"
| "spec_run_blocks i (block # blocks) (x, r) =
     do {
       y \<leftarrow> block x;
       x' \<leftarrow> spec_close i (spec_reset i x r) y;
       spec_run_blocks (Suc i) blocks (x', spec_reset i x r)
     }"

text \<open>
  The features that the loop of \<open>TransformerSR.forward\<close> holds before block \<open>j\<close>, when it
  starts from \<open>x0\<close> with the dictionary made from \<open>groups\<close>.
\<close>

definition features_before ::
  "int list \<Rightarrow> (real tensor \<Rightarrow> real tensor option) list \<Rightarrow> real tensor \<Rightarrow> nat \<Rightarrow>
   real tensor option" where
  "features_before groups blocks x0 j =
     map_option fst (run_blocks 0 (take j blocks) (x0, init_residual groups))"

text \<open>
  What the specification says is added after block \<open>i\<close>: for every period \<open>q\<close> with
  \<open>i % q = q - 1\<close>, in order, the features the run held before block \<open>i - (q - 1)\<close>.
\<close>

definition spec_add_captured ::
  "int list \<Rightarrow> (real tensor \<Rightarrow> real tensor option) list \<Rightarrow> real tensor \<Rightarrow> nat \<Rightarrow>
   int list \<Rightarrow> real tensor \<Rightarrow> real tensor option" where
  "spec_add_captured groups blocks x0 i periods y =
     fold (\<lambda>q acc. acc \<bind> (\<lambda>t. if int i mod q = q - 1
                                then (case features_before groups blocks x0 (i - nat (q - 1)) of
                                        None \<Rightarrow> None
                                      | Some f \<Rightarrow> tadd t f)
                                else Some t))
          periods (Some y)"

section \<open>The classifier's forward pass as the specification words it\<close>

text \<open>
  A stage is its down-sampling convolution (none for the first stage) and its pairs of
  a windowed and a transposed block.
\<close>

type_synonym stage = "conv_layer option \<times> (attention_block \<times> attention_block) list"

definition stage_layers :: "stage \<Rightarrow> layer list" where
  "stage_layers st =
     (case fst st of None \<Rightarrow> [] | Some c \<Rightarrow> [Conv2d c]) @
     concat (map (\<lambda>p. [AttentionBlock (fst p), AttentionBlock (snd p)]) (snd st))"

definition classifier_layers :: "conv_layer \<Rightarrow> stage list \<Rightarrow> linear_layer \<Rightarrow> layer list" where
  "classifier_layers c0 stages lin =
     [Conv2d c0] @ concat (map stage_layers stages) @ [AdaptiveAvgPool2d, Flatten, Linear lin]"

text \<open>Stage \<open>i\<close> as the constructor call with \<open>groups\<close>, \<open>dims\<close>, window size and heads builds it.\<close>

definition stage_init :: "nat list \<Rightarrow> nat list \<Rightarrow> nat \<Rightarrow> nat \<Rightarrow> nat \<Rightarrow> stage \<Rightarrow> bool" where
  "stage_init groups dims ws num_heads i st \<longleftrightarrow>
     (case fst st of
        None \<Rightarrow> i = 0
      | Some c \<Rightarrow> 0 < i \<and> Conv2d_init (dims ! (i - 1)) (dims ! i) 2 2 0 c) \<and>
     length (snd st) = groups ! i \<and>
     list_all (\<lambda>p. AttentionBlock_init (dims ! i) False (ws div 2 ^ i) num_heads (fst p) \<and>
                   AttentionBlock_init (dims ! i) True (ws div 2 ^ i) num_heads (snd p)) (snd st)"

fun spec_run_pairs ::
  "(attention_block \<times> attention_block) list \<Rightarrow> real tensor \<Rightarrow> real tensor option" where
  "spec_run_pairs [] x = Some x"
| "spec_run_pairs (p # ps) x =
     do {
       y \<leftarrow> AttentionBlock_forward (fst p) x;
       z \<leftarrow> AttentionBlock_forward (snd p) y;
       spec_run_pairs ps z
     }"

definition spec_run_stage :: "stage \<Rightarrow> real tensor \<Rightarrow> real tensor option" where
  "spec_run_stage st x =
     do {
       y \<leftarrow> (case fst st of None \<Rightarrow> Some x | Some c \<Rightarrow> conv2d c x);
       spec_run_pairs (snd st) y
     }"

fun spec_run_stages :: "stage list \<Rightarrow> real tensor \<Rightarrow> real tensor option" where
  "spec_run_stages [] x = Some x"
| "spec_run_stages (st # sts) x = do { y \<leftarrow> spec_run_stage st x; spec_run_stages sts y }"

text \<open>
  Subtract 0.5, the first convolution, the stages in order, global average pooling to
  \<open>1 \<times> 1\<close>, flattening, the linear projection.
\<close>

definition spec_classifier_forward ::
  "conv_layer \<Rightarrow> stage list \<Rightarrow> linear_layer \<Rightarrow> real tensor \<Rightarrow> real tensor option" where
  "spec_classifier_forward c0 stages lin x =
     do {
       x1 \<leftarrow> conv2d c0 (sub_scalar x (1 / 2));
       x2 \<leftarrow> spec_run_stages stages x1;
       x3 \<leftarrow> adaptive_avg_pool_1 x2;
       x4 \<leftarrow> flatten_t x3 1;
       linear lin x4
     }"

section \<open>Example modules\<close>

text \<open>
  Small modules with all parameters zero, of the shapes their constructors give them;
  the theorems below are instantiated with them.
\<close>

definition example_linear :: "nat \<Rightarrow> nat \<Rightarrow> linear_layer" where
  "example_linear i k =
     \<lparr>lin_weight = \<lparr>shape = [k, i], data = replicate (k * i) 0\<rparr>,
      lin_bias = \<lparr>shape = [k], data = replicate k 0\<rparr>\<rparr>"

definition example_norm :: "nat \<Rightarrow> norm_layer" where
  "example_norm d =
     \<lparr>ln_weight = \<lparr>shape = [d], data = replicate d 0\<rparr>,
      ln_bias = \<lparr>shape = [d], data = replicate d 0\<rparr>,
      ln_eps = 1 / 100000\<rparr>"

definition example_conv :: "nat \<Rightarrow> nat \<Rightarrow> nat \<Rightarrow> nat \<Rightarrow> nat \<Rightarrow> conv_layer" where
  "example_conv ci co k s p =
     \<lparr>cv_weight = \<lparr>shape = [co, ci, k, k], data = replicate (co * ci * k * k) 0\<rparr>,
      cv_bias = \<lparr>shape = [co], data = replicate co 0\<rparr>,
      cv_stride = s, cv_padding = p\<rparr>"

definition example_attention :: "nat \<Rightarrow> bool \<Rightarrow> nat \<Rightarrow> attention" where
  "example_attention d tr nh =
     \<lparr>att_dim = d, att_transposed = tr, att_num_heads = nh,
      att_qkv = example_linear d (d * 3), att_out = example_linear d d\<rparr>"

definition example_block :: "nat \<Rightarrow> bool \<Rightarrow> nat \<Rightarrow> nat \<Rightarrow> attention_block" where
  "example_block d tr ws nh =
     \<lparr>window_size = ws, transposed = tr, window_attention = example_attention d tr nh,
      mlp_fc1 = example_linear d (d * 4),
      mlp_act = (\<lambda>v. v / (1 + exp (- (1702 / 1000) * v))),
      mlp_fc2 = example_linear (d * 4) d,
      norm1 = example_norm d, norm2 = example_norm d\<rparr>"

definition example_pair :: "attention_block \<times> attention_block" where
  "example_pair = (example_block 2 False 2 1, example_block 2 True 2 1)"

definition example_sr :: transformer_sr where
  "example_sr =
     \<lparr>residual_groups = [2], in_conv = example_conv 3 2 3 1 1,
      sr_blocks = [example_pair, example_pair, example_pair, example_pair],
      out_conv = example_conv 2 (2 ^ 2 * 3) 3 1 1, out_shuffle = 2\<rparr>"

definition example_image :: "nat \<Rightarrow> nat \<Rightarrow> real tensor" where
  "example_image H W = \<lparr>shape = [1, 3, H, W], data = replicate (3 * H * W) 0\<rparr>"

text \<open>
  A standard attention module with one head of dimension 2 whose projections copy the
  input (query = key = value = input), and an input with two sequence positions.
\<close>


definition cx_attention :: attention where
  "cx_attention =
     \<lparr>att_dim = 2, att_transposed = False, att_num_heads = 1,
      att_qkv = \<lparr>lin_weight = \<lparr>shape = [6, 2], data = [1, 0, 0, 1, 1, 0, 0, 1, 1, 0, 0, 1]\<rparr>,
                 lin_bias = \<lparr>shape = [6], data = [0, 0, 0, 0, 0, 0]\<rparr>\<rparr>,
      att_out = \<lparr>lin_weight = \<lparr>shape = [2, 2], data = [1, 0, 0, 1]\<rparr>,
                 lin_bias = \<lparr>shape = [2], data = [0, 0]\<rparr>\<rparr>\<rparr>"

definition cx_input :: "real tensor" where
  "cx_input = \<lparr>shape = [1, 1, 2, 2], data = [2, 0, 0, 0]\<rparr>"

definition cx_head :: "real tensor" where
  "cx_head = \<lparr>shape = [1, 1, 1, 2, 2], data = [2, 0, 0, 0]\<rparr>"


text \<open>A classifier with \<open>groups = [1, 1]\<close>, \<open>dims = [16, 32]\<close>, window size 8, 4 heads, 10 classes.\<close>

definition example_classifier :: "layer list" where
  "example_classifier =
     [Conv2d (example_conv 3 16 3 1 1),
      AttentionBlock (example_block 16 False 8 4), AttentionBlock (example_block 16 True 8 4),
      Conv2d (example_conv 16 32 2 2 0),
      AttentionBlock (example_block 32 False 4 4), AttentionBlock (example_block 32 True 4 4),
      AdaptiveAvgPool2d, Flatten, Linear (example_linear 32 10)]"

text \<open>The same projections in a transposed attention module.\<close>

definition cx_transposed :: attention where
  "cx_transposed = cx_attention\<lparr>att_transposed := True\<rparr>"

text \<open>The parameters of \<open>example_classifier\<close>, stage by stage.\<close>

definition example_stages :: "stage list" where
  "example_stages =
     [(None, [(example_block 16 False 8 4, example_block 16 True 8 4)]),
      (Some (example_conv 16 32 2 2 0), [(example_block 32 False 4 4, example_block 32 True 4 4)])]"

text \<open>
  A classifier with one stage without block-pairs (\<open>groups = [0]\<close>, \<open>dims = [1]\<close>, one
  input channel, two classes): a convolution whose nine weights are 1, and the
  projection \<open>v \<mapsto> (v, 2 v + 1)\<close>.
\<close>

definition tiny_conv :: conv_layer where
  "tiny_conv =
     \<lparr>cv_weight = \<lparr>shape = [1, 1, 3, 3], data = [1, 1, 1, 1, 1, 1, 1, 1, 1]\<rparr>,
      cv_bias = \<lparr>shape = [1], data = [0]\<rparr>, cv_stride = 1, cv_padding = 1\<rparr>"

definition tiny_linear :: linear_layer where
  "tiny_linear =
     \<lparr>lin_weight = \<lparr>shape = [2, 1], data = [1, 2]\<rparr>, lin_bias = \<lparr>shape = [2], data = [0, 1]\<rparr>\<rparr>"

definition tiny_classifier :: "layer list" where
  "tiny_classifier = [Conv2d tiny_conv, AdaptiveAvgPool2d, Flatten, Linear tiny_linear]"
section \<open>Index arithmetic and views\<close>


lemma ravel_lt: "list_all2 (<) idx s \<Longrightarrow> ravel s idx < prod_list s"
proof (induction idx s rule: list_all2_induct)
  case Nil
  then show ?case by simp
next
  case (Cons i idx d s)
  have "i * prod_list s + ravel s idx < i * prod_list s + prod_list s"
    using Cons.IH by simp
  also have "\<dots> = Suc i * prod_list s" by simp
  also have "\<dots> \<le> d * prod_list s"
    using Cons.hyps(1) by (intro mult_le_mono1) simp
  finally show ?case by simp
qed

lemma unravel_ravel: "list_all2 (<) idx s \<Longrightarrow> unravel s (ravel s idx) = idx"
proof (induction idx s rule: list_all2_induct)
  case Nil
  then show ?case by simp
next
  case (Cons i idx d s)
  have lt: "ravel s idx < prod_list s" using Cons.hyps(2) by (rule ravel_lt)
  then show ?case using Cons.IH by simp
qed

lemma ravel_unravel: "ravel s (unravel s n) = n" if "n < prod_list s"
  using that
proof (induction s arbitrary: n)
  case Nil
  then show ?case by simp
next
  case (Cons d s)
  have pos: "0 < prod_list s" using Cons.prems by (cases "prod_list s = 0") auto
  have "ravel s (unravel s (n mod prod_list s)) = n mod prod_list s"
    using pos by (intro Cons.IH) simp
  then show ?case by simp
qed

lemma valid_unravel: "n < prod_list s \<Longrightarrow> list_all2 (<) (unravel s n) s"
proof (induction s arbitrary: n)
  case Nil
  then show ?case by simp
next
  case (Cons d s)
  have pos: "0 < prod_list s" using Cons.prems by (cases "prod_list s = 0") auto
  have "n div prod_list s < d"
    using Cons.prems pos by (simp add: less_mult_imp_div_less mult.commute)
  moreover have "list_all2 (<) (unravel s (n mod prod_list s)) s"
    using pos by (intro Cons.IH) simp
  ultimately show ?case by simp
qed

lemma gather_gather:
  assumes wf: "wf_tensor x"
    and ok: "\<And>idx. list_all2 (<) idx (shape x) \<Longrightarrow> list_all2 (<) (g idx) s' \<and> f (g idx) = idx"
  shows "gather (gather x s' f) (shape x) g = x"
proof -
  let ?s = "shape x"
  have "data (gather (gather x s' f) ?s g) = map (\<lambda>m. data x ! m) [0..<prod_list ?s]"
  proof -
    have "data (gather x s' f) ! ravel s' (g (unravel ?s m)) = data x ! m"
      if m: "m < prod_list ?s" for m
    proof -
      have v: "list_all2 (<) (unravel ?s m) ?s" using m by (rule valid_unravel)
      from ok[OF v] have v': "list_all2 (<) (g (unravel ?s m)) s'"
        and fg: "f (g (unravel ?s m)) = unravel ?s m" by simp_all
      have lt: "ravel s' (g (unravel ?s m)) < prod_list s'" using v' by (rule ravel_lt)
      show ?thesis
        using lt by (simp add: gather_def unravel_ravel[OF v'] fg ravel_unravel[OF m])
    qed
    moreover have "shape (gather x s' f) = s'" by (simp add: gather_def)
    ultimately show ?thesis by (simp add: gather_def[of "gather x s' f"])
  qed
  also have "\<dots> = data x" using wf unfolding wf_tensor_def by (metis map_nth)
  finally have "data (gather (gather x s' f) ?s g) = data x" .
  moreover have "shape (gather (gather x s' f) ?s g) = shape x" by (simp add: gather_def)
  ultimately show ?thesis by simp
qed



lemma sort_upt_iff: "sort p = [0..<n] \<longleftrightarrow> length p = n \<and> distinct p \<and> set p = {0..<n}"
proof
  assume h: "sort p = [0..<n]"
  have "length (sort p) = n" "distinct (sort p)" "set (sort p) = {0..<n}"
    unfolding h by simp_all
  then show "length p = n \<and> distinct p \<and> set p = {0..<n}" by simp
next
  assume h: "length p = n \<and> distinct p \<and> set p = {0..<n}"
  show "sort p = [0..<n]"
    by (rule sorted_distinct_set_unique) (use h in simp_all)
qed

lemma index_of_nth: "d \<in> set p \<Longrightarrow> index_of d p < length p \<and> p ! index_of d p = d"
  unfolding index_of_def
  by (induction p) auto

lemma index_of_eq: "distinct p \<Longrightarrow> k < length p \<Longrightarrow> index_of (p ! k) p = k"
  unfolding index_of_def
proof (induction p arbitrary: k)
  case Nil
  then show ?case by simp
next
  case (Cons a p)
  then show ?case by (cases k) auto
qed

lemma inv_perm_props:
  assumes "sort p = [0..<n]"
  shows "sort (inv_perm p) = [0..<n]" and "inv_perm (inv_perm p) = p"
    and "map (\<lambda>k. p ! k) (inv_perm p) = [0..<n]"
proof -
  from assms have len: "length p = n" and dist: "distinct p" and set: "set p = {0..<n}"
    by (simp_all add: sort_upt_iff)
  have ix: "index_of d p < n \<and> p ! index_of d p = d" if "d < n" for d
    using index_of_nth[of d p] that set len by simp
  have len': "length (inv_perm p) = n" by (simp add: inv_perm_def len)
  have nth': "inv_perm p ! d = index_of d p" if "d < n" for d
    using that by (simp add: inv_perm_def len)
  have inj: "inj_on (\<lambda>d. index_of d p) {0..<n}"
    by (rule inj_onI) (metis atLeastLessThan_iff ix)
  have dist': "distinct (inv_perm p)"
    unfolding inv_perm_def len using inj by (simp add: distinct_map)
  have sub: "set (inv_perm p) \<subseteq> {0..<n}"
    unfolding inv_perm_def len using ix by auto
  have "card (set (inv_perm p)) = n" using dist' len' by (simp add: distinct_card)
  then have set': "set (inv_perm p) = {0..<n}"
    using sub by (simp add: card_subset_eq)
  show s: "sort (inv_perm p) = [0..<n]"
    using len' dist' set' by (simp add: sort_upt_iff)
  show "map (\<lambda>k. p ! k) (inv_perm p) = [0..<n]"
    unfolding inv_perm_def len using ix by (intro nth_equalityI) simp_all
  show "inv_perm (inv_perm p) = p"
  proof (rule nth_equalityI)
    show "length (inv_perm (inv_perm p)) = length p" by (simp add: inv_perm_def)
  next
    fix k assume "k < length (inv_perm (inv_perm p))"
    then have k: "k < n" by (simp add: inv_perm_def len)
    have pk: "p ! k < n" using k set len by (metis atLeastLessThan_iff nth_mem)
    have "index_of (inv_perm p ! (p ! k)) (inv_perm p) = p ! k"
      using dist' pk len' by (intro index_of_eq) simp_all
    moreover have "inv_perm p ! (p ! k) = k"
      using nth'[OF pk] index_of_eq[OF dist, of k] k len by simp
    ultimately have "index_of k (inv_perm p) = p ! k" by simp
    then show "inv_perm (inv_perm p) ! k = p ! k"
      using k by (simp add: inv_perm_def[of "inv_perm p"] len')
  qed
qed

lemma permute_inverse:
  assumes wf: "wf_tensor x" and p: "permute x p = Some y"
  shows "permute y (inv_perm p) = Some x"
proof -
  let ?n = "length (shape x)"
  from p have sp: "sort p = [0..<?n]" by (simp add: permute_def split: if_splits)
  from p sp have y: "y = gather x (map (\<lambda>k. shape x ! k) p) (\<lambda>j. map (\<lambda>k. j ! k) (inv_perm p))"
    by (simp add: permute_def)
  from sp have len: "length p = ?n" and setp: "set p = {0..<?n}" by (simp_all add: sort_upt_iff)
  note ip = inv_perm_props[OF sp]
  have sy: "shape y = map (\<lambda>k. shape x ! k) p" by (simp add: y gather_def)
  have ly: "length (shape y) = ?n" by (simp add: sy len)
  have comp: "map (\<lambda>k. map (\<lambda>k. (xs::nat list) ! k) p ! k) (inv_perm p) = xs" if "length xs = ?n" for xs
  proof -
    have "set (inv_perm p) = {0..<?n}" using ip(1) by (simp add: sort_upt_iff)
    then have "map (\<lambda>k. map (\<lambda>k. xs ! k) p ! k) (inv_perm p) = map (\<lambda>k. xs ! (p ! k)) (inv_perm p)"
      using len by (intro map_cong) auto
    also have "\<dots> = map (\<lambda>k. xs ! k) (map (\<lambda>k. p ! k) (inv_perm p))" by (simp add: comp_def)
    also have "\<dots> = xs" unfolding ip(3) using that by (metis map_nth)
    finally show ?thesis .
  qed
  have sh: "map (\<lambda>k. shape y ! k) (inv_perm p) = shape x"
    unfolding sy by (rule comp) simp
  have "gather y (shape x) (\<lambda>j. map (\<lambda>k. j ! k) p) = x"
    unfolding y
  proof (rule gather_gather[OF wf])
    fix idx assume v: "list_all2 (<) idx (shape x)"
    then have li: "length idx = ?n" by (simp add: list_all2_lengthD)
    have "p ! i < ?n" if "i < ?n" for i
      using that setp len by (metis atLeastLessThan_iff nth_mem)
    then have "list_all2 (<) (map (\<lambda>k. idx ! k) p) (map (\<lambda>k. shape x ! k) p)"
      using v by (simp add: list_all2_conv_all_nth len)
    moreover have "map (\<lambda>k. map (\<lambda>k. idx ! k) p ! k) (inv_perm p) = idx"
      by (rule comp[OF li])
    ultimately show "list_all2 (<) (map (\<lambda>k. idx ! k) p) (map (\<lambda>k. shape x ! k) p) \<and>
       map (\<lambda>k. map (\<lambda>k. idx ! k) p ! k) (inv_perm p) = idx" by simp
  qed
  then show ?thesis
    by (simp add: permute_def ly ip(1) ip(2) sh)
qed



lemma wf_gather: "wf_tensor (gather x s f)"
  by (simp add: wf_tensor_def gather_def)

lemma permute_wf: "permute x p = Some y \<Longrightarrow> wf_tensor y"
  by (auto simp: permute_def wf_gather split: if_splits)

lemma permute_shape: "permute x p = Some y \<Longrightarrow> shape y = map (\<lambda>k. shape x ! k) p"
  by (auto simp: permute_def gather_def split: if_splits)

lemma reshape_wf: "wf_tensor x \<Longrightarrow> reshape x s = Some y \<Longrightarrow> wf_tensor y"
  by (auto simp: reshape_def wf_tensor_def split: if_splits)

lemma reshape_shape: "reshape x s = Some y \<Longrightarrow> shape y = s"
  by (auto simp: reshape_def split: if_splits)

lemma reshape_inverse: "reshape x s = Some y \<Longrightarrow> reshape y (shape x) = Some x"
  by (auto simp: reshape_def split: if_splits)

lemma permute_defined: "sort p = [0..<length (shape x)] \<Longrightarrow> \<exists>y. permute x p = Some y"
  by (simp add: permute_def)

lemma inv_perm_6: "inv_perm [0, 1, 2, 4, 3, 5] = [0, 1, 2, 4, 3, 5]"
  by (simp add: inv_perm_def index_of_def upt_rec)

lemma inv_perm_5: "inv_perm [0, 2, 1, 3, 4] = [0, 2, 1, 3, 4]"
  by (simp add: inv_perm_def index_of_def upt_rec)

lemma sort_6: "sort [0, 1, 2, 4, 3, 5] = [0 ..< 6::nat]"
  by (simp add: upt_rec)

lemma sort_5: "sort [0, 2, 1, 3, 4] = [0 ..< 5::nat]"
  by (simp add: upt_rec)

lemma window_count: 
  assumes "0 < (w::nat)" "w dvd H" "w dvd W"
  shows "H * W div w ^ 2 = (H div w) * (W div w)"
proof -
  from assms obtain a b where "H = w * a" "W = w * b" unfolding dvd_def by auto
  then have "H * W = (a * b) * w ^ 2" by (simp add: power2_eq_square algebra_simps)
  moreover have "H div w = a" "W div w = b" using \<open>H = w * a\<close> \<open>W = w * b\<close> assms(1) by simp_all
  ultimately show ?thesis using assms(1) by simp
qed



lemma swap_at_length [simp]: "length (swap_at a b xs) = length xs"
  by (simp add: swap_at_def)

lemma swap_at_nth:
  "a < length xs \<Longrightarrow> b < length xs \<Longrightarrow> k < length xs \<Longrightarrow>
   swap_at a b xs ! k = (if k = b then xs ! a else if k = a then xs ! b else xs ! k)"
  by (simp add: swap_at_def nth_list_update)

lemma swap_at_involution:
  "a < length xs \<Longrightarrow> b < length xs \<Longrightarrow> swap_at a b (swap_at a b xs) = xs"
  by (rule nth_equalityI) (auto simp: swap_at_nth)

lemma swap_at_valid:
  assumes "list_all2 (<) idx s" "a < length s" "b < length s"
  shows "list_all2 (<) (swap_at a b idx) (swap_at a b s)"
proof -
  have l: "length idx = length s" using assms(1) by (rule list_all2_lengthD)
  show ?thesis
    using assms by (auto simp: list_all2_conv_all_nth swap_at_nth l)
qed

lemma wrap_dim_lt: "wrap_dim d n = Some a \<Longrightarrow> 0 < n \<Longrightarrow> a < n"
  by (auto simp: wrap_dim_def Let_def split: if_splits)

lemma transpose_involution:
  assumes wf: "wf_tensor x" and t: "transpose_t x d0 d1 = Some y"
  shows "transpose_t y d0 d1 = Some x"
proof (cases "length (shape x) = 0")
  case True
  then show ?thesis using t by (auto simp: transpose_t_def split: bind_splits)
next
  case False
  from t obtain a b where a: "wrap_dim d0 (length (shape x)) = Some a"
    and b: "wrap_dim d1 (length (shape x)) = Some b"
    and y: "y = gather x (swap_at a b (shape x)) (swap_at a b)"
    using False by (auto simp: transpose_t_def split: bind_splits)
  have la: "a < length (shape x)" and lb: "b < length (shape x)"
    using a b False by (auto dest: wrap_dim_lt)
  have sy: "shape y = swap_at a b (shape x)" by (simp add: y gather_def)
  have "gather y (shape x) (swap_at a b) = x"
    unfolding y
  proof (rule gather_gather[OF wf])
    fix idx assume v: "list_all2 (<) idx (shape x)"
    then have "length idx = length (shape x)" by (rule list_all2_lengthD)
    then show "list_all2 (<) (swap_at a b idx) (swap_at a b (shape x)) \<and>
        swap_at a b (swap_at a b idx) = idx"
      using swap_at_valid[OF v la lb] la lb by (simp add: swap_at_involution)
  qed
  then show ?thesis
    using False a b la lb by (simp add: transpose_t_def sy swap_at_involution)
qed

lemma transpose_wf: "wf_tensor x \<Longrightarrow> transpose_t x d0 d1 = Some y \<Longrightarrow> wf_tensor y"
  by (auto simp: transpose_t_def wf_gather split: bind_splits if_splits)

lemma ravel_append:
  "length s1 = length i1 \<Longrightarrow>
   ravel (s1 @ s2) (i1 @ i2) = ravel s1 i1 * prod_list s2 + ravel s2 i2"
  by (induction s1 i1 rule: list_induct2) (simp_all add: algebra_simps)

lemma list_all2_lt_append:
  "list_all2 (<) ip pre \<Longrightarrow> list_all2 (<) js s \<Longrightarrow> list_all2 (<) (ip @ js) (pre @ s)"
  by (simp add: list_all2_appendI)

section \<open>The residual dictionary\<close>


lemma fold_update_map_of:
  "map_of (fold (\<lambda>k r. AList.update k v r) ks r) =
     (\<lambda>p. if p \<in> set ks then Some v else map_of r p)"
  by (induction ks arbitrary: r) (auto simp: update_conv' fun_eq_iff)

lemma fold_update_distinct:
  "distinct (map fst r) \<Longrightarrow> distinct (map fst (fold (\<lambda>k r. AList.update k v r) ks r))"
  by (induction ks arbitrary: r) (auto simp: distinct_update)

lemma fold_update_keys:
  "fst ` set (fold (\<lambda>k r. AList.update k v r) ks r) = set ks \<union> fst ` set r"
  unfolding dom_map_of_conv_image_fst[symmetric] fold_update_map_of
  by (auto split: if_splits)

lemma init_residual_map_of:
  "map_of (init_residual groups) p = (if p \<in> set groups then Some IntZero else None)"
  by (simp add: init_residual_def fold_update_map_of)

lemma init_residual_keys: "fst ` set (init_residual groups) = set groups"
  by (simp add: init_residual_def fold_update_keys)

lemma init_residual_distinct: "distinct (map fst (init_residual groups))"
  by (simp add: init_residual_def fold_update_distinct)

lemma update_existing_keys: "k \<in> fst ` set r \<Longrightarrow> map fst (AList.update k v r) = map fst r"
  by (simp add: update_keys)

lemma reset_residuals_effect:
  assumes "0 \<notin> set steps"
  shows "\<exists>r'. reset_residuals i x steps r = Some r' \<and>
           map_of r' = (\<lambda>p. if p \<in> set steps \<and> int i mod p = 0 then Some (Held x) else map_of r p) \<and>
           (set steps \<subseteq> fst ` set r \<longrightarrow> map fst r' = map fst r)"
  using assms
proof (induction steps arbitrary: r)
  case Nil
  then show ?case by simp
next
  case (Cons step steps)
  let ?r1 = "if int i mod step = 0 then AList.update step (Held x) r else r"
  from Cons.prems have nz: "step \<noteq> 0" and nzs: "0 \<notin> set steps" by auto
  from Cons.IH[OF nzs, of ?r1] obtain r' where
    r': "reset_residuals i x steps ?r1 = Some r'"
    and m: "map_of r' = (\<lambda>p. if p \<in> set steps \<and> int i mod p = 0 then Some (Held x) else map_of ?r1 p)"
    and k: "set steps \<subseteq> fst ` set ?r1 \<longrightarrow> map fst r' = map fst ?r1"
    by blast
  have 1: "reset_residuals i x (step # steps) r = Some r'" using nz r' by simp
  have 2: "map_of r' = (\<lambda>p. if p \<in> set (step # steps) \<and> int i mod p = 0 then Some (Held x) else map_of r p)"
    unfolding m by (auto simp: fun_eq_iff update_conv')
  have 3: "map fst r' = map fst r" if sub: "set (step # steps) \<subseteq> fst ` set r"
  proof -
    have e: "map fst ?r1 = map fst r" using sub by (simp add: update_existing_keys)
    then have "fst ` set ?r1 = fst ` set r" by (metis list.set_map)
    then show ?thesis using k sub e by auto
  qed
  show ?case using 1 2 3 by blast
qed

lemma run_blocks_append:
  "run_blocks i (bs @ cs) s = run_blocks i bs s \<bind> run_blocks (i + length bs) cs"
proof (induction bs arbitrary: i s)
  case Nil
  then show ?case by simp
next
  case (Cons b bs)
  obtain x r where s: "s = (x, r)" by (cases s)
  show ?case
    unfolding s by (simp add: Cons.IH split: bind_splits)
qed

lemma run_blocks_prefix:
  assumes "run_blocks 0 (take k blocks) s = Some t" "j \<le> k"
  shows "\<exists>t'. run_blocks 0 (take j blocks) s = Some t'"
proof -
  have "take k blocks = take j blocks @ drop j (take k blocks)"
    using assms(2) by (metis append_take_drop_id min.absorb_iff2 take_take min.commute)
  then have "run_blocks 0 (take k blocks) s =
      run_blocks 0 (take j blocks) s \<bind> run_blocks (0 + length (take j blocks)) (drop j (take k blocks))"
    using run_blocks_append by metis
  with assms(1) show ?thesis by (auto split: bind_splits)
qed

lemma run_blocks_Suc:
  assumes "k < length blocks"
  shows "run_blocks 0 (take (Suc k) blocks) s =
         run_blocks 0 (take k blocks) s \<bind> run_blocks k [blocks ! k]"
  using assms by (simp add: take_Suc_conv_app_nth run_blocks_append)



lemma mod_step:
  assumes "1 \<le> (p::int)" "0 < k" "int k mod p \<noteq> 0"
  shows "k - nat (int k mod p) = k - 1 - nat (int (k - 1) mod p)"
proof -
  define a where "a = int (k - 1) mod p"
  have a: "0 \<le> a" "a < p" using assms(1) by (simp_all add: a_def)
  have k: "int k = int (k - 1) + 1" using assms(2) by simp
  have "int k mod p = (a + 1) mod p"
    unfolding k a_def by (simp add: mod_add_left_eq)
  moreover have "a + 1 \<noteq> p" using calculation assms(3) by auto
  ultimately have "int k mod p = a + 1" using a by simp
  then show ?thesis using a unfolding a_def[symmetric] by simp
qed

lemma residual_invariant:
  assumes nz0: "0 \<notin> set groups"
  shows "k \<le> length blocks \<Longrightarrow>
     run_blocks 0 (take k blocks) (x0, init_residual groups) = Some (xk, rk) \<Longrightarrow>
     map fst rk = map fst (init_residual groups) \<and>
     (\<forall>p\<in>set groups. 1 \<le> p \<longrightarrow>
       (if k = 0 then map_of rk p = Some IntZero
        else \<exists>xj rj. run_blocks 0 (take (k - 1 - nat (int (k - 1) mod p)) blocks)
                        (x0, init_residual groups) = Some (xj, rj) \<and>
                     map_of rk p = Some (Held xj)))"
proof (induction k arbitrary: xk rk)
  case 0
  then show ?case by (auto simp: init_residual_map_of)
next
  case (Suc k)
  let ?init = "init_residual groups"
  have kl: "k < length blocks" using Suc.prems(1) by simp
  from Suc.prems(2) obtain xk' rk' where
    prev: "run_blocks 0 (take k blocks) (x0, ?init) = Some (xk', rk')"
    and last: "run_blocks k [blocks ! k] (xk', rk') = Some (xk, rk)"
    unfolding run_blocks_Suc[OF kl] by (auto split: bind_splits)
  have kl': "k \<le> length blocks" using kl by simp
  note IH = Suc.IH[OF kl' prev]
  have keys': "map fst rk' = map fst ?init" using IH by (rule conjunct1)
  have ih: "\<forall>p\<in>set groups. 1 \<le> p \<longrightarrow>
       (if k = 0 then map_of rk' p = Some IntZero
        else \<exists>xj rj. run_blocks 0 (take (k - 1 - nat (int (k - 1) mod p)) blocks)
                        (x0, ?init) = Some (xj, rj) \<and> map_of rk' p = Some (Held xj))"
    using IH by (rule conjunct2)
  have kset: "set (map fst rk') = set groups"
    unfolding keys' by (simp add: init_residual_keys)
  have nz: "0 \<notin> set (map fst rk')" unfolding kset using nz0 by auto
  from reset_residuals_effect[OF nz, of k xk' rk'] obtain r' where
    r': "reset_residuals k xk' (map fst rk') rk' = Some r'"
    and m: "map_of r' = (\<lambda>p. if p \<in> set (map fst rk') \<and> int k mod p = 0 then Some (Held xk')
                             else map_of rk' p)"
    and ks: "map fst r' = map fst rk'"
    by auto
  from last r' have rk: "rk = r'" by (auto split: bind_splits)
  have "\<exists>xj rj. run_blocks 0 (take (k - nat (int k mod p)) blocks) (x0, ?init) = Some (xj, rj) \<and>
          map_of rk p = Some (Held xj)" if p: "p \<in> set groups" and p1: "1 \<le> p" for p
  proof (cases "int k mod p = 0")
    case True
    then show ?thesis using prev p kset by (simp add: rk m)
  next
    case False
    then have k0: "0 < k" by (cases k) auto
    from ih p p1 k0 obtain xj rj where
      "run_blocks 0 (take (k - 1 - nat (int (k - 1) mod p)) blocks) (x0, ?init) = Some (xj, rj)"
      "map_of rk' p = Some (Held xj)" by auto
    then show ?thesis using False mod_step[OF p1 k0 False] by (simp add: rk m)
  qed
  then show ?case using ks keys' rk by simp
qed



lemma add_residuals_fold:
  assumes "0 \<notin> set steps" "set steps \<subseteq> dom (map_of r)"
  shows "add_residuals i steps r y =
         fold (\<lambda>p acc. acc \<bind> (\<lambda>x. if int i mod p = p - 1 then add_held x (the (map_of r p)) else Some x))
              steps (Some y)"
  using assms
proof (induction steps arbitrary: y)
  case Nil
  then show ?case by simp
next
  case (Cons p steps)
  have none: "fold (\<lambda>p acc. acc \<bind> (\<lambda>x. if int i mod p = p - 1 then add_held x (the (map_of r p)) else Some x))
              steps None = None"
    by (induction steps) simp_all
  from Cons.prems obtain h where h: "map_of r p = Some h" by auto
  show ?case
    using Cons.prems Cons.IH h none by (cases "add_held y h") auto
qed


lemma update_as_map:
  assumes "distinct (map fst r)" "k \<in> fst ` set r"
  shows "AList.update k v r = map (\<lambda>(p, h). (p, if p = k then v else h)) r"
  using assms
proof (induction r)
  case Nil
  then show ?case by simp
next
  case (Cons e r)
  obtain p h where e: "e = (p, h)" by (cases e)
  show ?case
  proof (cases "p = k")
    case True
    then have "k \<notin> fst ` set r" using Cons.prems(1) e by auto
    then have "map (\<lambda>(p, h). (p, if p = k then v else h)) r = r"
      by (induction r) auto
    then show ?thesis using True e by simp
  next
    case False
    then show ?thesis using Cons e by auto
  qed
qed

lemma reset_residuals_as_map:
  assumes "distinct (map fst r)" "0 \<notin> set steps" "set steps \<subseteq> fst ` set r"
  shows "reset_residuals i x steps r =
         Some (map (\<lambda>(p, h). (p, if p \<in> set steps \<and> int i mod p = 0 then Held x else h)) r)"
  using assms
proof (induction steps arbitrary: r)
  case Nil
  then show ?case by simp
next
  case (Cons step steps)
  let ?r1 = "if int i mod step = 0 then AList.update step (Held x) r else r"
  have r1: "?r1 = map (\<lambda>(p, h). (p, if p = step \<and> int i mod p = 0 then Held x else h)) r"
  proof (cases "int i mod step = 0")
    case True
    have "AList.update step (Held x) r = map (\<lambda>(p, h). (p, if p = step then Held x else h)) r"
      using Cons.prems by (intro update_as_map) auto
    also have "\<dots> = map (\<lambda>(p, h). (p, if p = step \<and> int i mod p = 0 then Held x else h)) r"
      using True by (intro map_cong) auto
    finally show ?thesis using True by simp
  next
    case False
    have "map (\<lambda>(p, h). (p, if p = step \<and> int i mod p = 0 then Held x else h)) r = map (\<lambda>e. e) r"
      using False by (intro map_cong) auto
    then show ?thesis using False by simp
  qed
  have keys: "map fst ?r1 = map fst r" unfolding r1 by (simp add: comp_def case_prod_beta)
  have d: "distinct (map fst ?r1)" using Cons.prems(1) keys by simp
  have sub: "set steps \<subseteq> fst ` set ?r1"
    using Cons.prems(3) keys by (metis list.set_map set_subset_Cons subset_trans)
  have nz: "0 \<notin> set steps" "step \<noteq> 0" using Cons.prems(2) by auto
  have "reset_residuals i x (step # steps) r = reset_residuals i x steps ?r1"
    using nz by simp
  also have "\<dots> = Some (map (\<lambda>(p, h). (p, if p \<in> set steps \<and> int i mod p = 0 then Held x else h)) ?r1)"
    by (rule Cons.IH[OF d nz(1) sub])
  also have "map (\<lambda>(p, h). (p, if p \<in> set steps \<and> int i mod p = 0 then Held x else h)) ?r1 =
      map (\<lambda>(p, h). (p, if p \<in> set (step # steps) \<and> int i mod p = 0 then Held x else h)) r"
    unfolding r1 by (auto simp: comp_def case_prod_beta)
  finally show ?case .
qed

lemma reset_residuals_spec:
  assumes "distinct (map fst r)" "0 \<notin> fst ` set r"
  shows "reset_residuals i x (map fst r) r = Some (spec_reset i x r)"
proof -
  have "reset_residuals i x (map fst r) r =
        Some (map (\<lambda>(p, h). (p, if p \<in> set (map fst r) \<and> int i mod p = 0 then Held x else h)) r)"
    using assms by (intro reset_residuals_as_map) auto
  also have "map (\<lambda>(p, h). (p, if p \<in> set (map fst r) \<and> int i mod p = 0 then Held x else h)) r =
      spec_reset i x r"
    unfolding spec_reset_def by (intro map_cong) (auto simp: rev_image_eqI)
  finally show ?thesis .
qed

lemma spec_reset_keys [simp]: "map fst (spec_reset i x r) = map fst r"
  by (simp add: spec_reset_def comp_def case_prod_beta)

lemma spec_reset_map_of:
  "map_of (spec_reset i x r) p =
     map_option (\<lambda>h. if int i mod p = 0 then Held x else h) (map_of r p)"
  unfolding spec_reset_def by (induction r) auto

lemma fold_close_None:
  "fold (\<lambda>(p, h) acc. acc \<bind> (\<lambda>x. if int i mod p = p - 1 then add_held x h else Some x)) es None = None"
  by (induction es) auto

lemma add_residuals_entries:
  assumes "\<And>p h. (p, h) \<in> set es \<Longrightarrow> p \<noteq> 0 \<and> map_of r p = Some h"
  shows "add_residuals i (map fst es) r y =
         fold (\<lambda>(p, h) acc. acc \<bind> (\<lambda>x. if int i mod p = p - 1 then add_held x h else Some x))
              es (Some y)"
  using assms
proof (induction es arbitrary: y)
  case Nil
  then show ?case by simp
next
  case (Cons e es)
  obtain p h where e: "e = (p, h)" by (cases e)
  have ph: "p \<noteq> 0" "map_of r p = Some h" using Cons.prems[of p h] e by auto
  have rest: "\<And>p h. (p, h) \<in> set es \<Longrightarrow> p \<noteq> 0 \<and> map_of r p = Some h"
    using Cons.prems by auto
  show ?case
    using ph Cons.IH[OF rest] by (cases "add_held y h") (auto simp: e fold_close_None)
qed

lemma add_residuals_spec:
  assumes "distinct (map fst r)" "0 \<notin> fst ` set r"
  shows "add_residuals i (map fst r) r y = spec_close i r y"
  unfolding spec_close_def
proof (rule add_residuals_entries)
  fix p h assume "(p, h) \<in> set r"
  then show "p \<noteq> 0 \<and> map_of r p = Some h"
    using assms by (auto simp: rev_image_eqI)
qed

lemma run_blocks_spec:
  assumes "distinct (map fst r)" "0 \<notin> fst ` set r"
  shows "run_blocks i blocks (x, r) = spec_run_blocks i blocks (x, r)"
  using assms
proof (induction blocks arbitrary: i x r)
  case Nil
  then show ?case by simp
next
  case (Cons b blocks)
  let ?r' = "spec_reset i x r"
  have d': "distinct (map fst ?r')" using Cons.prems(1) by simp
  have nz': "0 \<notin> fst ` set ?r'"
    using Cons.prems(2) spec_reset_keys[of i x r] by (metis list.set_map)
  have "run_blocks i (b # blocks) (x, r) =
        do { y \<leftarrow> b x; x' \<leftarrow> add_residuals i (map fst ?r') ?r' y; run_blocks (Suc i) blocks (x', ?r') }"
    by (simp add: reset_residuals_spec[OF Cons.prems])
  also have "\<dots> = do { y \<leftarrow> b x; x' \<leftarrow> spec_close i ?r' y; spec_run_blocks (Suc i) blocks (x', ?r') }"
    by (simp only: add_residuals_spec[OF d' nz'] Cons.IH[OF d' nz'])
  finally show ?case by simp
qed



lemma spec_run_blocks_example:
  "spec_run_blocks 3 [\<lambda>t. Some (add_scalar t 10)]
     (\<lparr>shape = [1], data = [1]\<rparr>,
      [(2, Held \<lparr>shape = [1], data = [100]\<rparr>), (3, Held \<lparr>shape = [1], data = [1000]\<rparr>),
       (1, Held \<lparr>shape = [1], data = [5]\<rparr>)]) =
   Some (\<lparr>shape = [1], data = [112]\<rparr>,
         [(2, Held \<lparr>shape = [1], data = [100]\<rparr>), (3, Held \<lparr>shape = [1], data = [1]\<rparr>),
          (1, Held \<lparr>shape = [1], data = [1]\<rparr>)])"
  by code_simp




lemma never_due_negative: "q < 0 \<Longrightarrow> int i mod q \<noteq> q - 1"
proof
  assume q: "q < 0" and e: "int i mod q = q - 1"
  have "q < int i mod q" using q by (rule neg_mod_bound)
  then show False using e by simp
qed


lemma captured_example_run:
  "run_blocks 0 (take (Suc 1) [\<lambda>t. Some (add_scalar t 10), \<lambda>t. Some (add_scalar t 10)])
     (\<lparr>shape = [1], data = [1]\<rparr>, init_residual [2, - 3, 1]) =
   Some (\<lparr>shape = [1], data = [35]\<rparr>,
         [(2, Held \<lparr>shape = [1], data = [1]\<rparr>), (- 3, Held \<lparr>shape = [1], data = [1]\<rparr>),
          (1, Held \<lparr>shape = [1], data = [12]\<rparr>)])"
  by code_simp

lemma captured_example_features:
  "features_before [2, - 3, 1] [\<lambda>t. Some (add_scalar t 10), \<lambda>t. Some (add_scalar t 10)]
     \<lparr>shape = [1], data = [1]\<rparr> 0 = Some \<lparr>shape = [1], data = [1]\<rparr>"
  "features_before [2, - 3, 1] [\<lambda>t. Some (add_scalar t 10), \<lambda>t. Some (add_scalar t 10)]
     \<lparr>shape = [1], data = [1]\<rparr> 1 = Some \<lparr>shape = [1], data = [12]\<rparr>"
  by code_simp+

lemma captured_example_keys: "map fst (init_residual [2, - 3, 1]) = [2, - 3, 1]"
  by code_simp

section \<open>Shapes of the numeric operations\<close>


lemma offset_lt: "(a::nat) < A \<Longrightarrow> b < B \<Longrightarrow> a * B + b < A * B"
proof -
  assume a: "a < A" and b: "b < B"
  have "a * B + b < a * B + B" using b by simp
  also have "\<dots> = Suc a * B" by simp
  also have "\<dots> \<le> A * B" using a by (intro mult_le_mono1) simp
  finally show ?thesis .
qed

lemma unravel3:
  "unravel [P, m, n] e = [e div (m * n), e mod (m * n) div n, e mod (m * n) mod n]"
  for P m n e :: nat
  by simp

lemma last_two:
  assumes "2 \<le> length (s::'b list)"
  shows "s = take (length s - 2) s @ [s ! (length s - 2), s ! (length s - 1)]"
proof -
  from assms have "s \<noteq> []" by auto
  then obtain t b where s: "s = t @ [b]" by (metis rev_exhaust)
  with assms have "t \<noteq> []" by auto
  then obtain pre a where t: "t = pre @ [a]" by (metis rev_exhaust)
  show ?thesis unfolding s t by (simp add: nth_append)
qed

lemma unravel3_lt:
  assumes "e < P * m * (n::nat)"
  shows "e div (m * n) < P" "e mod (m * n) div n < m" "e mod (m * n) mod n < n"
proof -
  have "list_all2 (<) (unravel [P, m, n] e) [P, m, n]"
    using assms by (intro valid_unravel) (simp add: mult.assoc)
  then show "e div (m * n) < P" "e mod (m * n) div n < m" "e mod (m * n) mod n < n"
    by simp_all
qed

lemma sum_list_divide_const:
  "sum_list (map (\<lambda>l. f l / (c::real)) ls) = sum_list (map f ls) / c"
  by (induction ls) (simp_all add: add_divide_distrib)

lemma wf_tmap: "wf_tensor x \<Longrightarrow> wf_tensor (tmap f x)"
  by (simp add: wf_tensor_def tmap_def)

lemma shape_tmap [simp]: "shape (tmap f x) = shape x"
  by (simp add: tmap_def)

lemma matmul_eval:
  assumes "shape a = batch @ [m, k]" "shape b = batch @ [k, n]"
  shows "matmul a b =
         Some \<lparr>shape = batch @ [m, n],
               data = map (matmul_entry (data a) (data b) m k n) [0..<prod_list batch * m * n]\<rparr>"
  by (simp add: matmul_def Let_def assms nth_append matmul_entry_def)

lemma matmul_SomeD:
  assumes "matmul a b = Some y"
  shows "\<exists>batch m k n. shape a = batch @ [m, k] \<and> shape b = batch @ [k, n]"
proof -
  let ?ra = "length (shape a)" and ?rb = "length (shape b)"
  from assms have ra: "2 \<le> ?ra" and rb: "2 \<le> ?rb"
    and bb: "take (?rb - 2) (shape b) = take (?ra - 2) (shape a)"
    and kk: "shape b ! (?rb - 2) = shape a ! (?ra - 1)"
    by (auto simp: matmul_def Let_def split: if_splits)
  from last_two[OF ra] last_two[OF rb] show ?thesis
    unfolding bb kk by blast
qed

lemma matmul_entry_div:
  assumes la: "length da = P * m * k" and lb: "length db = P * k * n" and e: "e < P * m * n"
  shows "matmul_entry (map (\<lambda>v. v / c) da) (map (\<lambda>v. v / c) db) m k n e =
         matmul_entry da db m k n e / (c * c)"
proof -
  note u = unravel3_lt[OF e]
  have "(map (\<lambda>v. v / c) da) ! ((e div (m * n) * m + e mod (m * n) div n) * k + l) *
        (map (\<lambda>v. v / c) db) ! ((e div (m * n) * k + l) * n + e mod (m * n) mod n) =
        da ! ((e div (m * n) * m + e mod (m * n) div n) * k + l) *
        db ! ((e div (m * n) * k + l) * n + e mod (m * n) mod n) / (c * c)"
    if l: "l < k" for l
  proof -
    have "(e div (m * n) * m + e mod (m * n) div n) * k + l < (P * m) * k"
      using u l by (intro offset_lt) simp_all
    moreover have "(e div (m * n) * k + l) * n + e mod (m * n) mod n < (P * k) * n"
      using u l by (intro offset_lt) simp_all
    ultimately show ?thesis by (simp add: la lb)
  qed
  then have "matmul_entry (map (\<lambda>v. v / c) da) (map (\<lambda>v. v / c) db) m k n e =
      sum_list (map (\<lambda>l. da ! ((e div (m * n) * m + e mod (m * n) div n) * k + l) *
                        db ! ((e div (m * n) * k + l) * n + e mod (m * n) mod n) / (c * c)) [0..<k])"
    unfolding matmul_entry_def by (intro arg_cong[where f = sum_list] map_cong) simp_all
  then show ?thesis by (simp only: sum_list_divide_const matmul_entry_def)
qed

lemma matmul_div_scalar:
  assumes wfa: "wf_tensor a" and wfb: "wf_tensor b"
  shows "matmul (div_scalar a c) (div_scalar b c) = map_option (\<lambda>s. div_scalar s (c * c)) (matmul a b)"
proof (cases "matmul a b")
  case None
  then show ?thesis
    by (auto simp: matmul_def div_scalar_def Let_def split: if_splits)
next
  case (Some y)
  then obtain batch m k n where sa: "shape a = batch @ [m, k]" and sb: "shape b = batch @ [k, n]"
    using matmul_SomeD by blast
  let ?P = "prod_list batch"
  have la: "length (data a) = ?P * m * k" using wfa by (simp add: wf_tensor_def sa)
  have lb: "length (data b) = ?P * k * n" using wfb by (simp add: wf_tensor_def sb)
  have sa': "shape (div_scalar a c) = batch @ [m, k]" and sb': "shape (div_scalar b c) = batch @ [k, n]"
    by (simp_all add: div_scalar_def sa sb)
  have "map (matmul_entry (map (\<lambda>v. v / c) (data a)) (map (\<lambda>v. v / c) (data b)) m k n) [0..<?P * m * n] =
        map (\<lambda>v. v / (c * c)) (map (matmul_entry (data a) (data b) m k n) [0..<?P * m * n])"
    unfolding map_map comp_def by (intro map_cong) (simp_all add: matmul_entry_div[OF la lb])
  then show ?thesis
    unfolding matmul_eval[OF sa sb] matmul_eval[OF sa' sb']
    by (simp add: div_scalar_def tmap_def)
qed



lemma rows_of_length [simp]: "length (rows_of n k xs) = n"
  by (simp add: rows_of_def)

lemma rows_of_row_length:
  assumes "length xs = n * k" "row \<in> set (rows_of n k xs)"
  shows "length row = k"
proof -
  from assms(2) obtain r where r: "r < n" and row: "row = take k (drop (r * k) xs)"
    by (auto simp: rows_of_def)
  have "Suc r * k \<le> n * k" using r by (intro mult_le_mono1) simp
  then show ?thesis using assms(1) by (simp add: row)
qed

lemma length_concat_const:
  assumes "\<And>row. row \<in> set rows \<Longrightarrow> length (f row) = k"
  shows "length (concat (map f rows)) = length rows * k"
  using assms by (induction rows) simp_all

lemma linear_shape:
  assumes l: "shape (lin_weight l) = [k, i]" "shape (lin_bias l) = [k]"
    and sx: "shape x = pre @ [i]"
  shows "\<exists>y. linear l x = Some y \<and> shape y = pre @ [k] \<and> wf_tensor y"
proof -
  have "length (concat (map (\<lambda>row. map (\<lambda>j. dot row (take i (drop (j * i) (data (lin_weight l))))
                                                + data (lin_bias l) ! j) [0..<k])
                      (rows_of (prod_list pre) i (data x)))) = prod_list pre * k"
    by (subst length_concat_const[where k = k]) simp_all
  then show ?thesis
    by (simp add: linear_def l sx wf_tensor_def)
qed

lemma Linear_init_shape:
  assumes "Linear_init i k l" "shape x = pre @ [i]"
  shows "\<exists>y. linear l x = Some y \<and> shape y = pre @ [k] \<and> wf_tensor y"
  using assms linear_shape[of l k i x pre] by (simp add: Linear_init_def)

lemma layer_norm_row_length [simp]: "length (layer_norm_row l row) = length row"
  by (simp add: layer_norm_row_def Let_def)

lemma layer_norm_shape:
  assumes l: "LayerNorm_init d l" and wf: "wf_tensor x" and sx: "shape x = pre @ [d]"
  shows "\<exists>y. layer_norm l x = Some y \<and> shape y = pre @ [d] \<and> wf_tensor y"
proof -
  have len: "length (data x) = prod_list pre * d" using wf by (simp add: wf_tensor_def sx)
  have "length (concat (map (layer_norm_row l) (rows_of (prod_list pre) d (data x)))) = prod_list pre * d"
    by (subst length_concat_const[where k = d]) (simp_all add: rows_of_row_length[OF len])
  then show ?thesis
    using l by (simp add: layer_norm_def LayerNorm_init_def sx wf_tensor_def)
qed

lemma softmax_row_length [simp]: "length (softmax_row r) = length r"
  by (simp add: softmax_row_def)

lemma softmax_last_shape:
  assumes wf: "wf_tensor x" and sx: "shape x = pre @ [d]"
  shows "shape (softmax_last x) = pre @ [d] \<and> wf_tensor (softmax_last x)"
proof -
  have len: "length (data x) = prod_list pre * d" using wf by (simp add: wf_tensor_def sx)
  have "length (concat (map softmax_row (rows_of (prod_list pre) d (data x)))) = prod_list pre * d"
    by (subst length_concat_const[where k = d]) (simp_all add: rows_of_row_length[OF len])
  then show ?thesis
    by (simp add: softmax_last_def sx wf_tensor_def)
qed

lemma matmul_shape:
  assumes "shape a = batch @ [m, k]" "shape b = batch @ [k, n]"
  shows "\<exists>y. matmul a b = Some y \<and> shape y = batch @ [m, n] \<and> wf_tensor y"
  unfolding matmul_eval[OF assms] by (simp add: wf_tensor_def)

lemma select_shape:
  assumes wf: "wf_tensor x" and sx: "shape x = d # s" and k: "k < d"
  shows "\<exists>y. select x k = Some y \<and> shape y = s \<and> wf_tensor y"
proof -
  have "Suc k * prod_list s \<le> d * prod_list s" using k by (intro mult_le_mono1) simp
  then show ?thesis
    using wf k by (simp add: select_def sx wf_tensor_def)
qed

lemma wrap_dim_neg2: "wrap_dim (- 2) (Suc (Suc n)) = Some n"
  by (simp add: wrap_dim_def Let_def)

lemma wrap_dim_neg1: "wrap_dim (- 1) (Suc n) = Some n"
  by (simp add: wrap_dim_def Let_def)

lemma swap_last_two:
  "swap_at (length pre) (Suc (length pre)) (pre @ [u, v]) = pre @ [v, u]"
  by (simp add: swap_at_def nth_append list_update_append)

lemma transpose_last_shape:
  assumes sx: "shape x = pre @ [a, b]"
  shows "\<exists>y. transpose_t x (- 2) (- 1) = Some y \<and> shape y = pre @ [b, a] \<and> wf_tensor y"
proof -
  have "wrap_dim (- 2) (length (shape x)) = Some (length pre)"
    "wrap_dim (- 1) (length (shape x)) = Some (Suc (length pre))"
    unfolding sx by (simp_all add: wrap_dim_neg2 wrap_dim_neg1)
  then show ?thesis
    unfolding transpose_t_def by (simp add: sx swap_last_two gather_def wf_tensor_def)
qed

lemma flatten_last_shape:
  assumes wf: "wf_tensor x" and sx: "shape x = pre @ [a, b]"
  shows "\<exists>y. flatten_t x (- 2) = Some y \<and> shape y = pre @ [a * b] \<and> wf_tensor y"
proof -
  have "wrap_dim (- 2) (length (shape x)) = Some (length pre)"
    unfolding sx by (simp add: wrap_dim_neg2)
  then show ?thesis
    unfolding flatten_t_def using wf by (simp add: sx wf_tensor_def)
qed

lemma reshape_ok:
  assumes "wf_tensor x" "prod_list s = prod_list (shape x)"
  shows "\<exists>y. reshape x s = Some y \<and> shape y = s \<and> wf_tensor y"
  using assms by (simp add: reshape_def wf_tensor_def)

lemma permute_ok:
  assumes "sort p = [0..<length (shape x)]"
  shows "\<exists>y. permute x p = Some y \<and> shape y = map (\<lambda>k. shape x ! k) p \<and> wf_tensor y"
  using assms by (simp add: permute_def gather_def wf_tensor_def)

lemma broadcast_rev_same: "broadcast_rev s s = Some s"
  by (induction s) simp_all

lemma broadcast_shapes_same: "broadcast_shapes s s = Some s"
  by (simp add: broadcast_shapes_def broadcast_rev_same)

lemma gather_id:
  assumes wf: "wf_tensor x" and ok: "\<And>idx. list_all2 (<) idx (shape x) \<Longrightarrow> f idx = idx"
  shows "gather x (shape x) f = x"
proof -
  have "data x ! ravel (shape x) (f (unravel (shape x) m)) = data x ! m" if "m < prod_list (shape x)" for m
    using that by (simp add: ok[OF valid_unravel] ravel_unravel)
  then have "map (\<lambda>m. data x ! ravel (shape x) (f (unravel (shape x) m))) [0..<prod_list (shape x)]
      = map (\<lambda>m. data x ! m) [0..<length (data x)]"
    using wf by (simp add: wf_tensor_def)
  then show ?thesis by (simp add: gather_def map_nth)
qed

lemma clip_index_same:
  "list_all2 (<) idx s \<Longrightarrow> map2 (\<lambda>d i. if d = 1 then 0 else i) s idx = (idx :: nat list)"
  by (induction idx s rule: list_all2_induct) auto

lemma expand_same: "wf_tensor x \<Longrightarrow> expand x (shape x) = x"
  unfolding expand_def
proof (rule gather_id)
  fix idx assume v: "list_all2 (<) idx (shape x)"
  show "map2 (\<lambda>d i. if d = 1 then 0 else i) (shape x)
          (drop (length (shape x) - length (shape x)) idx) = idx"
    using clip_index_same[OF v] by simp
qed

lemma tadd_same:
  assumes "wf_tensor x" "wf_tensor y" "shape x = shape y"
  shows "tadd x y = Some \<lparr>shape = shape x, data = map2 (+) (data x) (data y)\<rparr>"
  using assms expand_same[of x] expand_same[of y]
  by (simp add: tadd_def broadcast_shapes_same)

lemma tadd_same_shape:
  assumes "wf_tensor x" "wf_tensor y" "shape x = shape y"
  shows "\<exists>z. tadd x y = Some z \<and> shape z = shape x \<and> wf_tensor z"
  using assms by (simp add: tadd_same wf_tensor_def)

section \<open>Attention: shapes and score scaling\<close>


lemma sort_qkv: "sort [3, 0, 1, 4, 2, 5] = [0 ..< 6::nat]"
  by (simp add: upt_rec)

lemma sort_std: "sort [0, 1, 3, 2, 4] = [0 ..< 5::nat]"
  by (simp add: upt_rec)

lemma sort_tr: "sort [0, 1, 4, 2, 3] = [0 ..< 5::nat]"
  by (simp add: upt_rec)

lemma qkv_heads_shape:
  assumes lin: "Linear_init C (C * 3) (att_qkv m)" and nh: "0 < att_num_heads m"
    and dv: "att_num_heads m dvd C" and wf: "wf_tensor x" and sx: "shape x = [B, N, L, C]"
  shows "\<exists>q k v. qkv_heads m x = Some (q, k, v) \<and>
           shape q = [B, N, att_num_heads m, L, C div att_num_heads m] \<and> wf_tensor q \<and>
           shape k = [B, N, att_num_heads m, L, C div att_num_heads m] \<and> wf_tensor k \<and>
           shape v = [B, N, att_num_heads m, L, C div att_num_heads m] \<and> wf_tensor v"
proof -
  let ?nh = "att_num_heads m" and ?hd = "C div att_num_heads m"
  have sx': "shape x = [B, N, L] @ [C]" by (simp add: sx)
  from Linear_init_shape[OF lin sx'] obtain x1 where
    x1: "linear (att_qkv m) x = Some x1" "shape x1 = [B, N, L, C * 3]" "wf_tensor x1" by auto
  have hd: "?nh * ?hd = C" using dv by simp
  have "prod_list [B, N, L, 3, ?nh, ?hd] = B * N * L * 3 * (?nh * ?hd)" by simp
  also have "\<dots> = prod_list (shape x1)" unfolding hd by (simp add: x1(2))
  finally have pr: "prod_list [B, N, L, 3, ?nh, ?hd] = prod_list (shape x1)" .
  from reshape_ok[OF x1(3) pr] obtain x2 where
    x2: "reshape x1 [B, N, L, 3, ?nh, ?hd] = Some x2" "shape x2 = [B, N, L, 3, ?nh, ?hd]" "wf_tensor x2"
    by auto
  have "length (shape x2) = 6" by (simp add: x2(2))
  then have "sort [3, 0, 1, 4, 2, 5] = [0..<length (shape x2)]" by (simp only: sort_qkv)
  from permute_ok[OF this] obtain x3 where
    x3: "permute x2 [3, 0, 1, 4, 2, 5] = Some x3" "shape x3 = 3 # [B, N, ?nh, L, ?hd]" "wf_tensor x3"
    by (auto simp: x2(2))
  from select_shape[OF x3(3) x3(2), of 0] obtain q where
    q: "select x3 0 = Some q" "shape q = [B, N, ?nh, L, ?hd]" "wf_tensor q" by auto
  from select_shape[OF x3(3) x3(2), of 1] obtain k where
    k: "select x3 1 = Some k" "shape k = [B, N, ?nh, L, ?hd]" "wf_tensor k" by auto
  from select_shape[OF x3(3) x3(2), of 2] obtain v where
    v: "select x3 2 = Some v" "shape v = [B, N, ?nh, L, ?hd]" "wf_tensor v" by auto
  have "qkv_heads m x = Some (q, k, v)"
    using nh by (simp add: qkv_heads_def sx x1(1) x2(1) x3(1) q(1) k(1) v(1) del: One_nat_def)
  then show ?thesis using q k v by blast
qed

lemma forward_via_qkv:
  "MultiHeadSelfAttention_forward m x =
     do {
       (q, k, v) \<leftarrow> qkv_heads m x;
       x4 \<leftarrow>
         (if att_transposed m
          then do {
            qt \<leftarrow> transpose_t q (- 2) (- 1);
            s \<leftarrow> matmul (div_scalar qt (real (shape x ! 2))) (div_scalar k (real (shape x ! 2)));
            vt \<leftarrow> transpose_t v (- 2) (- 1);
            y \<leftarrow> matmul (softmax_last s) vt;
            permute y [0, 1, 4, 2, 3]
          }
          else do {
            kt \<leftarrow> transpose_t k (- 2) (- 1);
            s \<leftarrow> matmul (div_scalar q (real (shape x ! 3 div att_num_heads m)))
                       (div_scalar kt (real (shape x ! 3 div att_num_heads m)));
            y \<leftarrow> matmul (softmax_last s) v;
            permute y [0, 1, 3, 2, 4]
          });
       x5 \<leftarrow> flatten_t x4 (- 2);
       linear (att_out m) x5
     }"
  unfolding MultiHeadSelfAttention_forward_def qkv_heads_def
  by (auto split: list.splits bind_split simp: Let_def)



lemma wf_div_scalar: "wf_tensor x \<Longrightarrow> wf_tensor (div_scalar x c)"
  by (simp add: div_scalar_def wf_tmap)

lemma shape_div_scalar [simp]: "shape (div_scalar x c) = shape x"
  by (simp add: div_scalar_def)

lemma standard_forward_eq:
  assumes init: "MultiHeadSelfAttention_init C False nh m" and nh: "0 < nh" and dv: "nh dvd C"
    and wf: "wf_tensor x" and sx: "shape x = [B, N, L, C]"
  shows "MultiHeadSelfAttention_forward m x =
           spec_standard_forward m x (real (C div nh) * real (C div nh)) \<and>
         (\<exists>y. MultiHeadSelfAttention_forward m x = Some y \<and> shape y = [B, N, L, C] \<and> wf_tensor y)"
proof -
  let ?hd = "C div nh" and ?c = "real (C div nh)"
  from init have heads: "att_num_heads m = nh" and tr: "\<not> att_transposed m"
    and lq: "Linear_init C (C * 3) (att_qkv m)" and lo: "Linear_init C C (att_out m)"
    by (simp_all add: MultiHeadSelfAttention_init_def)
  from qkv_heads_shape[OF lq _ _ wf sx] nh dv heads obtain q k v where
    qkv: "qkv_heads m x = Some (q, k, v)"
    and q: "shape q = [B, N, nh] @ [L, ?hd]" "wf_tensor q"
    and k: "shape k = [B, N, nh] @ [L, ?hd]" "wf_tensor k"
    and v: "shape v = [B, N, nh] @ [L, ?hd]" "wf_tensor v"
    by auto
  from transpose_last_shape[OF k(1)] obtain kt where
    kt: "transpose_t k (- 2) (- 1) = Some kt" "shape kt = [B, N, nh] @ [?hd, L]" "wf_tensor kt"
    by auto
  from matmul_shape[OF q(1) kt(2)] obtain s where
    s: "matmul q kt = Some s" "shape s = [B, N, nh] @ [L, L]" "wf_tensor s" by auto
  have sc: "matmul (div_scalar q ?c) (div_scalar kt ?c) = Some (div_scalar s (?c * ?c))"
    using matmul_div_scalar[OF q(2) kt(3), of ?c] by (simp add: s(1))
  let ?p = "softmax_last (div_scalar s (?c * ?c))"
  have "shape (div_scalar s (?c * ?c)) = [B, N, nh, L] @ [L]" by (simp add: s(2))
  from softmax_last_shape[OF wf_div_scalar[OF s(3)] this]
  have p: "shape ?p = [B, N, nh] @ [L, L]" "wf_tensor ?p" by simp_all
  from matmul_shape[OF p(1) v(1)] obtain y where
    y: "matmul ?p v = Some y" "shape y = [B, N, nh, L, ?hd]" "wf_tensor y" by auto
  have "length (shape y) = 5" by (simp add: y(2))
  then have "sort [0, 1, 3, 2, 4] = [0..<length (shape y)]" by (simp only: sort_std)
  from permute_ok[OF this] obtain y1 where
    y1: "permute y [0, 1, 3, 2, 4] = Some y1" "shape y1 = [B, N, L] @ [nh, ?hd]" "wf_tensor y1"
    by (auto simp: y(2))
  from flatten_last_shape[OF y1(3) y1(2)] obtain y2 where
    y2: "flatten_t y1 (- 2) = Some y2" "shape y2 = [B, N, L] @ [nh * ?hd]" "wf_tensor y2" by auto
  have "nh * ?hd = C" using dv by simp
  then have y2s: "shape y2 = [B, N, L] @ [C]" using y2(2) by simp
  from Linear_init_shape[OF lo y2s] obtain z where
    z: "linear (att_out m) y2 = Some z" "shape z = [B, N, L, C]" "wf_tensor z" by auto
  have f: "MultiHeadSelfAttention_forward m x = Some z"
    unfolding forward_via_qkv
    by (simp add: qkv tr kt(1) sx heads sc y(1) y1(1) y2(1) z(1) del: One_nat_def)
  have g: "spec_standard_forward m x (?c * ?c) = Some z"
    unfolding spec_standard_forward_def spec_standard_attention_def
    by (simp add: qkv kt(1) s(1) y(1) y1(1) y2(1) z(1) del: One_nat_def)
  show ?thesis using f g z by simp
qed

lemma transposed_forward_eq:
  assumes init: "MultiHeadSelfAttention_init C True nh m" and nh: "0 < nh" and dv: "nh dvd C"
    and wf: "wf_tensor x" and sx: "shape x = [B, N, L, C]"
  shows "MultiHeadSelfAttention_forward m x =
           spec_transposed_forward m x (real L * real L) \<and>
         (\<exists>y. MultiHeadSelfAttention_forward m x = Some y \<and> shape y = [B, N, L, C] \<and> wf_tensor y)"
proof -
  let ?hd = "C div nh" and ?c = "real L"
  from init have heads: "att_num_heads m = nh" and tr: "att_transposed m"
    and lq: "Linear_init C (C * 3) (att_qkv m)" and lo: "Linear_init C C (att_out m)"
    by (simp_all add: MultiHeadSelfAttention_init_def)
  from qkv_heads_shape[OF lq _ _ wf sx] nh dv heads obtain q k v where
    qkv: "qkv_heads m x = Some (q, k, v)"
    and q: "shape q = [B, N, nh] @ [L, ?hd]" "wf_tensor q"
    and k: "shape k = [B, N, nh] @ [L, ?hd]" "wf_tensor k"
    and v: "shape v = [B, N, nh] @ [L, ?hd]" "wf_tensor v"
    by auto
  from transpose_last_shape[OF q(1)] obtain qt where
    qt: "transpose_t q (- 2) (- 1) = Some qt" "shape qt = [B, N, nh] @ [?hd, L]" "wf_tensor qt"
    by auto
  from transpose_last_shape[OF v(1)] obtain vt where
    vt: "transpose_t v (- 2) (- 1) = Some vt" "shape vt = [B, N, nh] @ [?hd, L]" "wf_tensor vt"
    by auto
  from matmul_shape[OF qt(2) k(1)] obtain s where
    s: "matmul qt k = Some s" "shape s = [B, N, nh] @ [?hd, ?hd]" "wf_tensor s" by auto
  have sc: "matmul (div_scalar qt ?c) (div_scalar k ?c) = Some (div_scalar s (?c * ?c))"
    using matmul_div_scalar[OF qt(3) k(2), of ?c] by (simp add: s(1))
  let ?p = "softmax_last (div_scalar s (?c * ?c))"
  have "shape (div_scalar s (?c * ?c)) = [B, N, nh, ?hd] @ [?hd]" by (simp add: s(2))
  from softmax_last_shape[OF wf_div_scalar[OF s(3)] this]
  have p: "shape ?p = [B, N, nh] @ [?hd, ?hd]" "wf_tensor ?p" by simp_all
  from matmul_shape[OF p(1) vt(2)] obtain y where
    y: "matmul ?p vt = Some y" "shape y = [B, N, nh, ?hd, L]" "wf_tensor y" by auto
  have "length (shape y) = 5" by (simp add: y(2))
  then have "sort [0, 1, 4, 2, 3] = [0..<length (shape y)]" by (simp only: sort_tr)
  from permute_ok[OF this] obtain y1 where
    y1: "permute y [0, 1, 4, 2, 3] = Some y1" "shape y1 = [B, N, L] @ [nh, ?hd]" "wf_tensor y1"
    by (auto simp: y(2))
  from flatten_last_shape[OF y1(3) y1(2)] obtain y2 where
    y2: "flatten_t y1 (- 2) = Some y2" "shape y2 = [B, N, L] @ [nh * ?hd]" "wf_tensor y2" by auto
  have "nh * ?hd = C" using dv by simp
  then have y2s: "shape y2 = [B, N, L] @ [C]" using y2(2) by simp
  from Linear_init_shape[OF lo y2s] obtain z where
    z: "linear (att_out m) y2 = Some z" "shape z = [B, N, L, C]" "wf_tensor z" by auto
  have f: "MultiHeadSelfAttention_forward m x = Some z"
    unfolding forward_via_qkv
    by (simp add: qkv tr qt(1) vt(1) sx sc y(1) y1(1) y2(1) z(1) del: One_nat_def)
  have g: "spec_transposed_forward m x (?c * ?c) = Some z"
    unfolding spec_transposed_forward_def spec_transposed_attention_def
    by (simp add: qkv qt(1) vt(1) s(1) y(1) y1(1) y2(1) z(1) del: One_nat_def)
  show ?thesis using f g z by simp
qed

lemma cx_qkv: "qkv_heads cx_attention cx_input = Some (cx_head, cx_head, cx_head)"
  by code_simp

lemma cx_kt: "transpose_t cx_head (- 2) (- 1) = Some cx_head"
  by code_simp

lemma cx_scores: "matmul cx_head cx_head = Some \<lparr>shape = [1, 1, 1, 2, 2], data = [4, 0, 0, 0]\<rparr>"
  by code_simp

lemma cx_softmax:
  "softmax_last (div_scalar \<lparr>shape = [1, 1, 1, 2, 2], data = [4, 0, 0, 0]\<rparr> c) =
     \<lparr>shape = [1, 1, 1, 2, 2],
      data = [exp (4 / c) / (exp (4 / c) + 1), 1 / (exp (4 / c) + 1), 1 / 2, 1 / 2]\<rparr>"
  by (simp add: softmax_last_def div_scalar_def tmap_def rows_of_def softmax_row_def upt_rec)

lemma cx_weighted:
  "matmul \<lparr>shape = [1, 1, 1, 2, 2], data = [a, b, c, d]\<rparr> cx_head =
     Some \<lparr>shape = [1, 1, 1, 2, 2], data = [a * 2, 0, c * 2, 0]\<rparr>"
proof -
  have "matmul \<lparr>shape = [1, 1, 1, 2, 2], data = [a, b, c, d]\<rparr> cx_head =
     Some \<lparr>shape = [1, 1, 1] @ [2, 2],
           data = map (matmul_entry [a, b, c, d] [2, 0, 0, 0] 2 2 2) [0..<prod_list [1, 1, 1] * 2 * 2]\<rparr>"
    using matmul_eval[of "\<lparr>shape = [1, 1, 1, 2, 2], data = [a, b, c, d]\<rparr>" "[1, 1, 1]" 2 2 cx_head 2]
    by (simp add: cx_head_def)
  also have "map (matmul_entry [a, b, c, d] [2, 0, 0, 0] 2 2 2) [0..<prod_list [1, 1, 1] * 2 * 2]
      = [a * 2, 0, c * 2, 0]"
    by (simp add: matmul_entry_def upt_rec)
  finally show ?thesis by simp
qed

lemma cx_permute:
  "permute \<lparr>shape = [1, 1, 1, 2, 2], data = [a, b, c, d]\<rparr> [0, 1, 3, 2, 4] =
     Some \<lparr>shape = [1, 1, 2, 1, 2], data = [a, b, c, d]\<rparr>"
  by (simp add: permute_def gather_def inv_perm_def index_of_def upt_rec)

lemma cx_flatten:
  "flatten_t \<lparr>shape = [1, 1, 2, 1, 2], data = [a, b, c, d]\<rparr> (- 2) =
     Some \<lparr>shape = [1, 1, 2, 2], data = [a, b, c, d]\<rparr>"
  by (simp add: flatten_t_def wrap_dim_def)

lemma cx_out:
  "linear (att_out cx_attention) \<lparr>shape = [1, 1, 2, 2], data = [a, 0, c, 0]\<rparr> =
     Some \<lparr>shape = [1, 1, 2, 2], data = [a, 0, c, 0]\<rparr>"
  by (simp add: linear_def cx_attention_def rows_of_def dot_def upt_rec)

lemma cx_spec:
  "spec_standard_forward cx_attention cx_input c =
     Some \<lparr>shape = [1, 1, 2, 2], data = [exp (4 / c) / (exp (4 / c) + 1) * 2, 0, 1 / 2 * 2, 0]\<rparr>"
  unfolding spec_standard_forward_def spec_standard_attention_def
  by (simp only: cx_qkv cx_kt cx_scores cx_softmax cx_weighted cx_permute cx_flatten cx_out
      bind.bind_lunit prod.case)



lemma cx_attention_init: "MultiHeadSelfAttention_init 2 False 1 cx_attention"
  by (simp add: MultiHeadSelfAttention_init_def Linear_init_def cx_attention_def wf_tensor_def)

lemma cx_input_wf: "wf_tensor cx_input" "shape cx_input = [1, 1, 2, 2]"
  by (simp_all add: cx_input_def wf_tensor_def)

lemma logistic_exp_neq: "exp (1::real) / (exp 1 + 1) \<noteq> exp 2 / (exp 2 + 1)"
proof
  assume "exp (1::real) / (exp 1 + 1) = exp 2 / (exp 2 + 1)"
  moreover have "exp (1::real) + 1 > 0" "exp (2::real) + 1 > 0" by (simp_all add: add_pos_pos)
  ultimately have "exp (1::real) * (exp 2 + 1) = exp 2 * (exp 1 + 1)"
    by (simp add: field_simps)
  then have "exp (1::real) = exp 2" by (simp add: algebra_simps)
  then show False by simp
qed

lemma example_attention_init: "MultiHeadSelfAttention_init d tr nh (example_attention d tr nh)"
  by (simp add: MultiHeadSelfAttention_init_def Linear_init_def example_attention_def
      example_linear_def wf_tensor_def)




lemma cx_transposed_init: "MultiHeadSelfAttention_init 2 True 1 cx_transposed"
  by (simp add: MultiHeadSelfAttention_init_def Linear_init_def cx_transposed_def cx_attention_def
      wf_tensor_def)

lemma cx_transposed_qkv: "qkv_heads cx_transposed cx_input = Some (cx_head, cx_head, cx_head)"
  by code_simp

lemma cx_permute_back:
  "permute \<lparr>shape = [1, 1, 1, 2, 2], data = [a, b, c, d]\<rparr> [0, 1, 4, 2, 3] =
     Some \<lparr>shape = [1, 1, 2, 1, 2], data = [a, c, b, d]\<rparr>"
  by (simp add: permute_def gather_def inv_perm_def index_of_def upt_rec)

lemma cx_out_any:
  "linear (att_out cx_transposed) \<lparr>shape = [1, 1, 2, 2], data = [a, b, c, d]\<rparr> =
     Some \<lparr>shape = [1, 1, 2, 2], data = [a, b, c, d]\<rparr>"
  by (simp add: linear_def cx_transposed_def cx_attention_def rows_of_def dot_def upt_rec)

lemma cx_transposed_spec:
  "spec_transposed_forward cx_transposed cx_input c =
     Some \<lparr>shape = [1, 1, 2, 2], data = [exp (4 / c) / (exp (4 / c) + 1) * 2, 1 / 2 * 2, 0, 0]\<rparr>"
  unfolding spec_transposed_forward_def spec_transposed_attention_def
  by (simp only: cx_transposed_qkv cx_kt cx_scores cx_softmax cx_weighted cx_permute_back cx_flatten
      cx_out_any bind.bind_lunit prod.case)

section \<open>Attention block: shapes of its steps\<close>


lemma unsqueeze_1_shape:
  assumes "wf_tensor x" "shape x = b # s"
  shows "\<exists>y. unsqueeze x 1 = Some y \<and> shape y = b # 1 # s \<and> wf_tensor y"
  using assms by (simp add: unsqueeze_def wf_tensor_def)

lemma squeeze_1_shape:
  assumes "wf_tensor x" "shape x = b # 1 # s"
  shows "\<exists>y. squeeze x 1 = Some y \<and> shape y = b # s \<and> wf_tensor y"
  using assms by (simp add: squeeze_def wf_tensor_def)

lemma spatial_flatten_shape:
  assumes wf: "wf_tensor x" and sx: "shape x = pre @ [C, H, W]"
  shows "\<exists>y. spatial_flatten x = Some y \<and> shape y = pre @ [H * W, C] \<and> wf_tensor y"
proof -
  have sx': "shape x = (pre @ [C]) @ [H, W]" by (simp add: sx)
  from flatten_last_shape[OF wf sx'] obtain x1 where
    x1: "flatten_t x (- 2) = Some x1" "shape x1 = pre @ [C, H * W]" "wf_tensor x1" by auto
  from transpose_last_shape[OF x1(2)] obtain y where
    "transpose_t x1 (- 2) (- 1) = Some y" "shape y = pre @ [H * W, C]" "wf_tensor y" by auto
  then show ?thesis by (simp add: spatial_flatten_def x1(1))
qed

lemma unflatten_last_shape:
  assumes wf: "wf_tensor x" and sx: "shape x = pre @ [H * W]"
  shows "\<exists>y. unflatten_t x (- 1) [H, W] = Some y \<and> shape y = pre @ [H, W] \<and> wf_tensor y"
proof -
  have "wrap_dim (- 1) (length (shape x)) = Some (length pre)"
    unfolding sx by (simp add: wrap_dim_neg1)
  then show ?thesis
    unfolding unflatten_t_def using wf by (simp add: sx wf_tensor_def)
qed

lemma spatial_unflatten_shape:
  assumes wf: "wf_tensor x" and sx: "shape x = pre @ [H * W, C]"
  shows "\<exists>y. spatial_unflatten x H W = Some y \<and> shape y = pre @ [C, H, W] \<and> wf_tensor y"
proof -
  from transpose_last_shape[OF sx] obtain x1 where
    x1: "transpose_t x (- 2) (- 1) = Some x1" "shape x1 = (pre @ [C]) @ [H * W]" "wf_tensor x1"
    by auto
  from unflatten_last_shape[OF x1(3) x1(2)] obtain y where
    "unflatten_t x1 (- 1) [H, W] = Some y" "shape y = pre @ [C, H, W]" "wf_tensor y" by auto
  then show ?thesis by (simp add: spatial_unflatten_def x1(1))
qed

lemma window_partition_shape:
  assumes wf: "wf_tensor x" and sx: "shape x = [B, C, H, W]"
    and w: "0 < w" "w dvd H" "w dvd W"
  shows "\<exists>y. window_partition x w = Some y \<and> shape y = [B, H div w * (W div w), C, w, w] \<and>
             wf_tensor y"
proof -
  have hw: "H div w * w = H" "W div w * w = W" using w by simp_all
  have "prod_list [B, C, H div w, w, W div w, w] = B * C * ((H div w * w) * (W div w * w))"
    by (simp add: ac_simps)
  then have pr: "prod_list [B, C, H div w, w, W div w, w] = prod_list (shape x)"
    unfolding hw by (simp add: sx ac_simps)
  from reshape_ok[OF wf pr] obtain x1 where
    x1: "reshape x [B, C, H div w, w, W div w, w] = Some x1"
      "shape x1 = [B, C, H div w, w, W div w, w]" "wf_tensor x1" by auto
  have "length (shape x1) = 6" by (simp add: x1(2))
  then have "sort [0, 1, 2, 4, 3, 5] = [0..<length (shape x1)]" by (simp only: sort_6)
  from permute_ok[OF this] obtain x2 where
    x2: "permute x1 [0, 1, 2, 4, 3, 5] = Some x2" "shape x2 = [B, C, H div w, W div w, w, w]"
      "wf_tensor x2" by (auto simp: x1(2))
  have pr2: "prod_list [B, C, H * W div w ^ 2, w, w] = prod_list (shape x2)"
    by (simp add: x2(2) window_count[OF w] ac_simps)
  from reshape_ok[OF x2(3) pr2] obtain x3 where
    x3: "reshape x2 [B, C, H * W div w ^ 2, w, w] = Some x3"
      "shape x3 = [B, C, H * W div w ^ 2, w, w]" "wf_tensor x3" by auto
  have "length (shape x3) = 5" by (simp add: x3(2))
  then have "sort [0, 2, 1, 3, 4] = [0..<length (shape x3)]" by (simp only: sort_5)
  from permute_ok[OF this] obtain y where
    y: "permute x3 [0, 2, 1, 3, 4] = Some y" "shape y = [B, H * W div w ^ 2, C, w, w]" "wf_tensor y"
    by (auto simp: x3(2))
  have "window_partition x w = Some y"
    using w(1) by (simp add: window_partition_def sx x1(1) x2(1) x3(1) y(1) del: One_nat_def)
  then show ?thesis using y by (simp add: window_count[OF w])
qed

lemma window_unpartition_shape:
  assumes wf: "wf_tensor x" and sx: "shape x = [B, H div w * (W div w), C, w, w]"
    and w: "0 < w" "w dvd H" "w dvd W"
  shows "\<exists>y. window_unpartition x H W = Some y \<and> shape y = [B, C, H, W] \<and> wf_tensor y"
proof -
  let ?nw = "H div w * (W div w)"
  have hw: "H div w * w = H" "W div w * w = W" using w by simp_all
  have "length (shape x) = 5" by (simp add: sx)
  then have "sort [0, 2, 1, 3, 4] = [0..<length (shape x)]" by (simp only: sort_5)
  from permute_ok[OF this] obtain x1 where
    x1: "permute x [0, 2, 1, 3, 4] = Some x1" "shape x1 = [B, C, ?nw, w, w]" "wf_tensor x1"
    by (auto simp: sx)
  have pr: "prod_list [B, C, H div w, W div w, w, w] = prod_list (shape x1)"
    by (simp add: x1(2) ac_simps)
  from reshape_ok[OF x1(3) pr] obtain x2 where
    x2: "reshape x1 [B, C, H div w, W div w, w, w] = Some x2"
      "shape x2 = [B, C, H div w, W div w, w, w]" "wf_tensor x2" by auto
  have "length (shape x2) = 6" by (simp add: x2(2))
  then have "sort [0, 1, 2, 4, 3, 5] = [0..<length (shape x2)]" by (simp only: sort_6)
  from permute_ok[OF this] obtain x3 where
    x3: "permute x2 [0, 1, 2, 4, 3, 5] = Some x3" "shape x3 = [B, C, H div w, w, W div w, w]"
      "wf_tensor x3" by (auto simp: x2(2))
  have "prod_list [B, C, H, W] = B * C * ((H div w * w) * (W div w * w))"
    unfolding hw by simp
  then have pr3: "prod_list [B, C, H, W] = prod_list (shape x3)"
    by (simp add: x3(2) ac_simps)
  from reshape_ok[OF x3(3) pr3] obtain y where
    y: "reshape x3 [B, C, H, W] = Some y" "shape y = [B, C, H, W]" "wf_tensor y" by auto
  have "window_unpartition x H W = Some y"
    using w(1) by (simp add: window_unpartition_def sx x1(1) x2(1) x3(1) y(1) del: One_nat_def)
  then show ?thesis using y by simp
qed

lemma mlp_shape:
  assumes f1: "Linear_init d (d * 4) (mlp_fc1 m)" and f2: "Linear_init (d * 4) d (mlp_fc2 m)"
    and sx: "shape x = pre @ [d]"
  shows "\<exists>h1 y. linear (mlp_fc1 m) x = Some h1 \<and> shape h1 = pre @ [d * 4] \<and>
           linear (mlp_fc2 m) (tmap (mlp_act m) h1) = Some y \<and> mlp m x = Some y \<and>
           shape y = pre @ [d] \<and> wf_tensor y"
proof -
  from Linear_init_shape[OF f1 sx] obtain h1 where
    h1: "linear (mlp_fc1 m) x = Some h1" "shape h1 = pre @ [d * 4]" "wf_tensor h1" by auto
  have "shape (tmap (mlp_act m) h1) = pre @ [d * 4]" by (simp add: h1(2))
  from Linear_init_shape[OF f2 this] obtain y where
    y: "linear (mlp_fc2 m) (tmap (mlp_act m) h1) = Some y" "shape y = pre @ [d]" "wf_tensor y" by auto
  have "mlp m x = Some y" by (simp add: mlp_def h1(1) y(1))
  with h1 y show ?thesis by blast
qed

lemma attention_shape:
  assumes "MultiHeadSelfAttention_init C tr nh m" and "0 < nh" and "nh dvd C"
    and "wf_tensor x" and "shape x = [B, N, L, C]"
  shows "\<exists>y. MultiHeadSelfAttention_forward m x = Some y \<and> shape y = [B, N, L, C] \<and> wf_tensor y"
proof (cases tr)
  case True
  with assms(1) have "MultiHeadSelfAttention_init C True nh m" by simp
  from transposed_forward_eq[OF this assms(2-5)] show ?thesis by (rule conjunct2)
next
  case False
  with assms(1) have "MultiHeadSelfAttention_init C False nh m" by simp
  from standard_forward_eq[OF this assms(2-5)] show ?thesis by (rule conjunct2)
qed



lemma block_sublayers:
  assumes init: "AttentionBlock_init C tr ws nh m" and nh: "0 < nh" "nh dvd C"
    and wf: "wf_tensor s" and ss: "shape s = [B, N, L, C]"
  shows "\<exists>n1 a s1 n2 h1 h s2.
     layer_norm (norm1 m) s = Some n1 \<and>
     MultiHeadSelfAttention_forward (window_attention m) n1 = Some a \<and>
     tadd s a = Some s1 \<and> s1 = \<lparr>shape = shape s, data = map2 (+) (data s) (data a)\<rparr> \<and>
     layer_norm (norm2 m) s1 = Some n2 \<and>
     linear (mlp_fc1 m) n2 = Some h1 \<and> shape h1 = [B, N, L, C * 4] \<and>
     linear (mlp_fc2 m) (tmap (mlp_act m) h1) = Some h \<and> mlp m n2 = Some h \<and>
     tadd s1 h = Some s2 \<and> s2 = \<lparr>shape = shape s, data = map2 (+) (data s1) (data h)\<rparr> \<and>
     wf_tensor s2"
proof -
  from init have att: "MultiHeadSelfAttention_init C tr nh (window_attention m)"
    and f1: "Linear_init C (C * 4) (mlp_fc1 m)" and f2: "Linear_init (C * 4) C (mlp_fc2 m)"
    and ln1: "LayerNorm_init C (norm1 m)" and ln2: "LayerNorm_init C (norm2 m)"
    by (simp_all add: AttentionBlock_init_def)
  have ss': "shape s = [B, N, L] @ [C]" by (simp add: ss)
  from layer_norm_shape[OF ln1 wf ss'] obtain n1 where
    n1: "layer_norm (norm1 m) s = Some n1" "shape n1 = [B, N, L, C]" "wf_tensor n1" by auto
  from attention_shape[OF att nh n1(3) n1(2)] obtain a where
    a: "MultiHeadSelfAttention_forward (window_attention m) n1 = Some a" "shape a = [B, N, L, C]"
      "wf_tensor a" by auto
  define s1 where "s1 = \<lparr>shape = shape s, data = map2 (+) (data s) (data a)\<rparr>"
  have sa: "shape s = shape a" by (simp add: ss a(2))
  have t1: "tadd s a = Some s1" unfolding s1_def by (rule tadd_same[OF wf a(3) sa])
  have s1s: "shape s1 = [B, N, L] @ [C]" by (simp add: s1_def ss)
  have wf1: "wf_tensor s1" using tadd_same_shape[OF wf a(3) sa] t1 by auto
  from layer_norm_shape[OF ln2 wf1 s1s] obtain n2 where
    n2: "layer_norm (norm2 m) s1 = Some n2" "shape n2 = [B, N, L] @ [C]" "wf_tensor n2" by auto
  from mlp_shape[OF f1 f2 n2(2)] obtain h1 h where
    h: "linear (mlp_fc1 m) n2 = Some h1" "shape h1 = [B, N, L] @ [C * 4]"
      "linear (mlp_fc2 m) (tmap (mlp_act m) h1) = Some h" "mlp m n2 = Some h"
      "shape h = [B, N, L] @ [C]" "wf_tensor h" by blast
  define s2 where "s2 = \<lparr>shape = shape s, data = map2 (+) (data s1) (data h)\<rparr>"
  have sh: "shape s1 = shape h" by (simp add: s1s h(5))
  have t2: "tadd s1 h = Some s2"
    using tadd_same[OF wf1 h(6) sh] by (simp add: s2_def s1_def)
  have wf2: "wf_tensor s2" using tadd_same_shape[OF wf1 h(6) sh] t2 by auto
  show ?thesis
    using n1(1) a(1) t1 s1_def n2(1) h(1) h(2) h(3) h(4) t2 s2_def wf2 by auto
qed

lemma attention_block_steps:
  assumes init: "AttentionBlock_init C tr ws nh m" and nh: "0 < nh" "nh dvd C"
    and wf: "wf_tensor x" and sx: "shape x = [B, C, H, W]"
    and win: "\<not> tr \<longrightarrow> 0 < ws \<and> ws dvd H \<and> ws dvd W"
  shows "\<exists>s n1 a s1 n2 h1 h s2 y.
     (if tr then unsqueeze x 1 else window_partition x ws) \<bind> spatial_flatten = Some s \<and>
     shape s = (if tr then [B, 1, H * W, C] else [B, H div ws * (W div ws), ws * ws, C]) \<and>
     layer_norm (norm1 m) s = Some n1 \<and>
     MultiHeadSelfAttention_forward (window_attention m) n1 = Some a \<and>
     s1 = \<lparr>shape = shape s, data = map2 (+) (data s) (data a)\<rparr> \<and>
     layer_norm (norm2 m) s1 = Some n2 \<and>
     linear (mlp_fc1 m) n2 = Some h1 \<and> shape h1 = butlast (shape s) @ [C * 4] \<and>
     linear (mlp_fc2 m) (tmap (mlp_act m) h1) = Some h \<and>
     s2 = \<lparr>shape = shape s, data = map2 (+) (data s1) (data h)\<rparr> \<and>
     (if tr then spatial_unflatten s2 H W \<bind> (\<lambda>t. squeeze t 1)
      else spatial_unflatten s2 ws ws \<bind> (\<lambda>t. window_unpartition t H W)) = Some y \<and>
     AttentionBlock_forward m x = Some y \<and> shape y = [B, C, H, W] \<and> wf_tensor y"
proof -
  from init have wsm: "window_size m = ws" and trm: "transposed m = tr"
    by (simp_all add: AttentionBlock_init_def)
  have "\<exists>x1 s N L. (if tr then unsqueeze x 1 else window_partition x ws) = Some x1 \<and>
      spatial_flatten x1 = Some s \<and> shape s = [B, N, L, C] \<and> wf_tensor s \<and>
      [B, N, L, C] = (if tr then [B, 1, H * W, C] else [B, H div ws * (W div ws), ws * ws, C])"
  proof (cases tr)
    case True
    from unsqueeze_1_shape[OF wf sx] obtain x1 where
      x1: "unsqueeze x 1 = Some x1" "shape x1 = [B, 1] @ [C, H, W]" "wf_tensor x1" by auto
    from spatial_flatten_shape[OF x1(3) x1(2)] obtain s where
      "spatial_flatten x1 = Some s" "shape s = [B, 1, H * W, C]" "wf_tensor s" by auto
    then show ?thesis using True x1(1) by auto
  next
    case False
    with win have w: "0 < ws" "ws dvd H" "ws dvd W" by simp_all
    from window_partition_shape[OF wf sx w] obtain x1 where
      x1: "window_partition x ws = Some x1" "shape x1 = [B, H div ws * (W div ws)] @ [C, ws, ws]"
        "wf_tensor x1" by auto
    from spatial_flatten_shape[OF x1(3) x1(2)] obtain s where
      "spatial_flatten x1 = Some s" "shape s = [B, H div ws * (W div ws), ws * ws, C]" "wf_tensor s"
      by auto
    then show ?thesis using False x1(1) by auto
  qed
  then obtain x1 s N L where
    x1: "(if tr then unsqueeze x 1 else window_partition x ws) = Some x1"
    and s: "spatial_flatten x1 = Some s" "shape s = [B, N, L, C]" "wf_tensor s"
    and NL: "[B, N, L, C] = (if tr then [B, 1, H * W, C] else [B, H div ws * (W div ws), ws * ws, C])"
    by blast
  from block_sublayers[OF init nh s(3) s(2)] obtain n1 a s1 n2 h1 h s2 where
    sub: "layer_norm (norm1 m) s = Some n1"
      "MultiHeadSelfAttention_forward (window_attention m) n1 = Some a"
      "tadd s a = Some s1" "s1 = \<lparr>shape = shape s, data = map2 (+) (data s) (data a)\<rparr>"
      "layer_norm (norm2 m) s1 = Some n2"
      "linear (mlp_fc1 m) n2 = Some h1" "shape h1 = [B, N, L, C * 4]"
      "linear (mlp_fc2 m) (tmap (mlp_act m) h1) = Some h" "mlp m n2 = Some h"
      "tadd s1 h = Some s2" "s2 = \<lparr>shape = shape s, data = map2 (+) (data s1) (data h)\<rparr>"
      "wf_tensor s2"
    by blast
  have s2s: "shape s2 = [B, N, L, C]" by (simp add: sub(11) s(2))
  have "\<exists>y. (if tr then spatial_unflatten s2 H W \<bind> (\<lambda>t. squeeze t 1)
      else spatial_unflatten s2 ws ws \<bind> (\<lambda>t. window_unpartition t H W)) = Some y \<and>
      shape y = [B, C, H, W] \<and> wf_tensor y"
  proof (cases tr)
    case True
    with NL have "shape s2 = [B, 1] @ [H * W, C]" by (simp add: s2s)
    from spatial_unflatten_shape[OF sub(12) this] obtain t where
      t: "spatial_unflatten s2 H W = Some t" "shape t = B # 1 # [C, H, W]" "wf_tensor t" by auto
    from squeeze_1_shape[OF t(3) t(2)] obtain y where
      "squeeze t 1 = Some y" "shape y = [B, C, H, W]" "wf_tensor y" by auto
    then show ?thesis using True t(1) by simp
  next
    case False
    with win have w: "0 < ws" "ws dvd H" "ws dvd W" by simp_all
    from False NL have "shape s2 = [B, H div ws * (W div ws)] @ [ws * ws, C]" by (simp add: s2s)
    from spatial_unflatten_shape[OF sub(12) this] obtain t where
      t: "spatial_unflatten s2 ws ws = Some t" "shape t = [B, H div ws * (W div ws), C, ws, ws]"
        "wf_tensor t" by auto
    from window_unpartition_shape[OF t(3) t(2) w] obtain y where
      "window_unpartition t H W = Some y" "shape y = [B, C, H, W]" "wf_tensor y" by auto
    then show ?thesis using False t(1) by simp
  qed
  then obtain y where
    y: "(if tr then spatial_unflatten s2 H W \<bind> (\<lambda>t. squeeze t 1)
      else spatial_unflatten s2 ws ws \<bind> (\<lambda>t. window_unpartition t H W)) = Some y"
      "shape y = [B, C, H, W]" "wf_tensor y" by blast
  have fw: "AttentionBlock_forward m x = Some y"
    using x1 s(1) sub(1,2,3,5,9,10) y(1)
    by (cases tr) (simp_all add: AttentionBlock_forward_def sx wsm trm del: One_nat_def)
  have e: "(if tr then unsqueeze x 1 else window_partition x ws) \<bind> spatial_flatten = Some s"
    using x1 s(1) by simp
  have ssh: "shape s = (if tr then [B, 1, H * W, C] else [B, H div ws * (W div ws), ws * ws, C])"
    using NL s(2) by simp
  have h1s: "shape h1 = butlast (shape s) @ [C * 4]" by (simp add: sub(7) s(2))
  show ?thesis
    using e ssh sub(1) sub(2) sub(4) sub(5) sub(6) h1s sub(8) sub(11) y fw by blast
qed

lemma attention_block_shape:
  assumes "AttentionBlock_init C tr ws nh m" and "0 < nh" "nh dvd C"
    and "wf_tensor x" and "shape x = [B, C, H, W]"
    and "\<not> tr \<longrightarrow> 0 < ws \<and> ws dvd H \<and> ws dvd W"
  shows "\<exists>y. AttentionBlock_forward m x = Some y \<and> shape y = [B, C, H, W] \<and> wf_tensor y"
  using attention_block_steps[OF assms] by blast



lemma example_block_init: "AttentionBlock_init d tr ws nh (example_block d tr ws nh)"
  by (simp add: AttentionBlock_init_def example_block_def example_attention_init Linear_init_def
      LayerNorm_init_def example_linear_def example_norm_def wf_tensor_def)

section \<open>Super-resolution network: shapes along the pipeline\<close>


lemma wf_sub_scalar: "wf_tensor x \<Longrightarrow> wf_tensor (sub_scalar x c)"
  by (simp add: sub_scalar_def wf_tmap)

lemma shape_sub_scalar [simp]: "shape (sub_scalar x c) = shape x"
  by (simp add: sub_scalar_def)

lemma wf_add_scalar: "wf_tensor x \<Longrightarrow> wf_tensor (add_scalar x c)"
  by (simp add: add_scalar_def wf_tmap)

lemma shape_add_scalar [simp]: "shape (add_scalar x c) = shape x"
  by (simp add: add_scalar_def)

lemma conv2d_shape:
  assumes l: "Conv2d_init ci co k s p l" and sx: "shape x = [B, ci, H, W]"
    and ch: "0 < ci" "0 < co"
    and s: "0 < s" and k: "k \<le> H + 2 * p" "k \<le> W + 2 * p"
  shows "\<exists>y. conv2d l x = Some y \<and>
           shape y = [B, co, (H + 2 * p - k) div s + 1, (W + 2 * p - k) div s + 1] \<and> wf_tensor y"
proof -
  from l have w: "shape (cv_weight l) = [co, ci, k, k]" and b: "shape (cv_bias l) = [co]"
    and st: "cv_stride l = s" and pd: "cv_padding l = p"
    by (simp_all add: Conv2d_init_def)
  have "conv2d l x = conv2d_batched l x" by (simp add: conv2d_def sx)
  moreover have "\<exists>y. conv2d_batched l x = Some y \<and>
           shape y = [B, co, (H + 2 * p - k) div s + 1, (W + 2 * p - k) div s + 1] \<and> wf_tensor y"
    using s k ch by (simp add: conv2d_batched_def w b st pd sx Let_def wf_tensor_def mult.assoc)
  ultimately show ?thesis by simp
qed

lemma gather_nth:
  assumes "list_all2 (<) idx s"
  shows "data (gather x s f) ! ravel s idx = data x ! ravel (shape x) (f idx)"
  using ravel_lt[OF assms] by (simp add: gather_def unravel_ravel[OF assms])

lemma pixel_shuffle_shape:
  assumes sx: "shape x = [B, C * (r * r), H, W]" and r: "0 < r"
  shows "\<exists>y. pixel_shuffle r x = Some y \<and> shape y = [B, C, H * r, W * r] \<and> wf_tensor y \<and>
           (\<forall>b c h w i j. b < B \<and> c < C \<and> h < H \<and> w < W \<and> i < r \<and> j < r \<longrightarrow>
              data y ! ravel [B, C, H * r, W * r] [b, c, h * r + i, w * r + j] =
              data x ! ravel [B, C * (r * r), H, W] [b, c * (r * r) + i * r + j, h, w])"
proof -
  let ?f = "\<lambda>j. take 1 j @ [j ! 1 * (r * r) + (j ! 2 mod r) * r + j ! 3 mod r, j ! 2 div r, j ! 3 div r]"
  define y where "y = gather x [B, C, H * r, W * r] ?f"
  have ps: "pixel_shuffle r x = Some y"
    using r by (simp add: pixel_shuffle_def sx Let_def y_def numeral_2_eq_2 numeral_3_eq_3)
  have sy: "shape y = [B, C, H * r, W * r]" by (simp add: y_def gather_def)
  have wfy: "wf_tensor y" unfolding y_def by (rule wf_gather)
  have el: "data y ! ravel [B, C, H * r, W * r] [b, c, h * r + i, w * r + j] =
              data x ! ravel [B, C * (r * r), H, W] [b, c * (r * r) + i * r + j, h, w]"
    if "b < B" "c < C" "h < H" "w < W" "i < r" "j < r" for b c h w i j
  proof -
    have v: "list_all2 (<) [b, c, h * r + i, w * r + j] [B, C, H * r, W * r]"
      using that by (simp add: offset_lt)
    have "?f [b, c, h * r + i, w * r + j] = [b, c * (r * r) + i * r + j, h, w]"
      using that by simp
    then show ?thesis
      unfolding y_def gather_nth[OF v] by (simp only: sx)
  qed
  show ?thesis using ps sy wfy el by blast
qed

lemma adaptive_avg_pool_shape:
  assumes sx: "shape x = [B, C, H, W]"
  shows "\<exists>y. adaptive_avg_pool_1 x = Some y \<and> shape y = [B, C, 1, 1] \<and> wf_tensor y"
  by (simp add: adaptive_avg_pool_1_def sx Let_def wf_tensor_def)

lemma flatten_1_shape:
  assumes wf: "wf_tensor x" and sx: "shape x = [B, C, 1, 1]"
  shows "\<exists>y. flatten_t x 1 = Some y \<and> shape y = [B, C] \<and> wf_tensor y"
  using wf by (simp add: flatten_t_def wrap_dim_def sx wf_tensor_def)



lemma add_residuals_shape:
  assumes "0 \<notin> set steps" and "set steps \<subseteq> dom (map_of r)"
    and "\<And>p t. map_of r p = Some (Held t) \<Longrightarrow> wf_tensor t \<and> shape t = S"
    and "wf_tensor x" and "shape x = S"
  shows "\<exists>x'. add_residuals i steps r x = Some x' \<and> wf_tensor x' \<and> shape x' = S"
  using assms(1,2,4,5)
proof (induction steps arbitrary: x)
  case Nil
  then show ?case by simp
next
  case (Cons step steps)
  from Cons.prems have nz: "step \<noteq> 0" "0 \<notin> set steps" and sub: "set steps \<subseteq> dom (map_of r)"
    by auto
  from Cons.prems obtain h where h: "map_of r step = Some h" by auto
  show ?case
  proof (cases "int i mod step = step - 1")
    case False
    then show ?thesis
      using nz Cons.IH[OF nz(2) sub Cons.prems(3) Cons.prems(4)] by simp
  next
    case True
    have "\<exists>x1. add_held x h = Some x1 \<and> wf_tensor x1 \<and> shape x1 = S"
    proof (cases h)
      case IntZero
      then show ?thesis using Cons.prems(3,4) by (simp add: wf_add_scalar)
    next
      case (Held t)
      with h assms(3) have t: "wf_tensor t" "shape t = S" by auto
      have "shape x = shape t" by (simp add: Cons.prems(4) t(2))
      from tadd_same_shape[OF Cons.prems(3) t(1) this] show ?thesis
        using Held Cons.prems(4) by auto
    qed
    then obtain x1 where x1: "add_held x h = Some x1" "wf_tensor x1" "shape x1 = S" by blast
    from Cons.IH[OF nz(2) sub x1(2) x1(3)] show ?thesis
      using nz True h x1(1) by simp
  qed
qed

lemma run_blocks_shape:
  assumes "\<And>b x. b \<in> set blocks \<Longrightarrow> wf_tensor x \<Longrightarrow> shape x = S \<Longrightarrow>
             \<exists>y. b x = Some y \<and> wf_tensor y \<and> shape y = S"
    and "0 \<notin> fst ` set r"
    and "\<And>p t. map_of r p = Some (Held t) \<Longrightarrow> wf_tensor t \<and> shape t = S"
    and "wf_tensor x" and "shape x = S"
  shows "\<exists>x' r'. run_blocks i blocks (x, r) = Some (x', r') \<and> wf_tensor x' \<and> shape x' = S"
  using assms
proof (induction blocks arbitrary: i x r)
  case Nil
  then show ?case by simp
next
  case (Cons b blocks)
  have nz: "0 \<notin> set (map fst r)" using Cons.prems(2) by simp
  from reset_residuals_effect[OF nz, of i x r] obtain r' where
    r': "reset_residuals i x (map fst r) r = Some r'"
    and m: "map_of r' = (\<lambda>p. if p \<in> set (map fst r) \<and> int i mod p = 0 then Some (Held x)
                             else map_of r p)"
    and ks: "map fst r' = map fst r"
    by auto
  have good': "wf_tensor t \<and> shape t = S" if "map_of r' p = Some (Held t)" for p t
    using that Cons.prems(3)[of p t] Cons.prems(4,5) unfolding m by (auto split: if_splits)
  from Cons.prems(1)[of b x] Cons.prems(4,5) obtain y where
    y: "b x = Some y" "wf_tensor y" "shape y = S" by auto
  have nz': "0 \<notin> set (map fst r')" using nz ks by simp
  have sub: "set (map fst r') \<subseteq> dom (map_of r')"
    by (simp add: dom_map_of_conv_image_fst)
  have "\<exists>x'. add_residuals i (map fst r') r' y = Some x' \<and> wf_tensor x' \<and> shape x' = S"
  proof (rule add_residuals_shape[OF nz' sub _ y(2) y(3)])
    fix p t assume "map_of r' p = Some (Held t)"
    then show "wf_tensor t \<and> shape t = S" by (rule good')
  qed
  then obtain x' where
    x': "add_residuals i (map fst r') r' y = Some x'" "wf_tensor x'" "shape x' = S" by blast
  have nz'': "0 \<notin> fst ` set r'" using nz' by simp
  have "\<exists>x'' r''. run_blocks (Suc i) blocks (x', r') = Some (x'', r'') \<and> wf_tensor x'' \<and> shape x'' = S"
    using Cons.prems(1) by (intro Cons.IH[OF _ nz'' good' x'(2) x'(3)]) auto
  then show ?case by (simp add: r' y(1) x'(1))
qed

lemma block_pair_shape:
  assumes "AttentionBlock_init C False ws nh (fst p)" and "AttentionBlock_init C True ws nh (snd p)"
    and "0 < nh" "nh dvd C" and "0 < ws" "ws dvd H" "ws dvd W"
    and "wf_tensor x" and "shape x = [B, C, H, W]"
  shows "\<exists>y. block_pair p x = Some y \<and> wf_tensor y \<and> shape y = [B, C, H, W]"
proof -
  have w: "\<not> False \<longrightarrow> 0 < ws \<and> ws dvd H \<and> ws dvd W" using assms(5-7) by simp
  from attention_block_shape[OF assms(1,3,4,8,9) w] obtain y1 where
    y1: "AttentionBlock_forward (fst p) x = Some y1" "shape y1 = [B, C, H, W]" "wf_tensor y1"
    by auto
  have w': "\<not> True \<longrightarrow> 0 < ws \<and> ws dvd H \<and> ws dvd W" by simp
  from attention_block_shape[OF assms(2,3,4) y1(3) y1(2) w'] obtain y where
    "AttentionBlock_forward (snd p) y1 = Some y" "shape y = [B, C, H, W]" "wf_tensor y" by auto
  then show ?thesis by (simp add: block_pair_def y1(1))
qed

lemma transformer_sr_steps:
  assumes init: "TransformerSR_init factor groups nb d ws nh ci co m"
    and groups: "0 \<notin> set groups" and nh: "0 < nh" "nh dvd d"
    and ws: "0 < ws" "ws dvd H" "ws dvd W" and factor: "0 < factor"
    and ch: "0 < ci" "0 < d" "0 < co"
    and pos: "0 < H" "0 < W"
    and wf: "wf_tensor x" and sx: "shape x = [B, ci, H, W]"
  shows "\<exists>x1 x2 r x3 x4 y.
     conv2d (in_conv m) (sub_scalar x (1 / 2)) = Some x1 \<and> shape x1 = [B, d, H, W] \<and>
     run_blocks 0 (map block_pair (sr_blocks m)) (x1, init_residual groups) = Some (x2, r) \<and>
     shape x2 = [B, d, H, W] \<and>
     conv2d (out_conv m) x2 = Some x3 \<and> shape x3 = [B, co * (factor * factor), H, W] \<and>
     pixel_shuffle factor x3 = Some x4 \<and> shape x4 = [B, co, H * factor, W * factor] \<and>
     (\<forall>b c h w i j. b < B \<and> c < co \<and> h < H \<and> w < W \<and> i < factor \<and> j < factor \<longrightarrow>
        data x4 ! ravel [B, co, H * factor, W * factor] [b, c, h * factor + i, w * factor + j] =
        data x3 ! ravel [B, co * (factor * factor), H, W]
                    [b, c * (factor * factor) + i * factor + j, h, w]) \<and>
     y = add_scalar x4 (1 / 2) \<and>
     TransformerSR_forward m x = Some y \<and> shape y = [B, co, H * factor, W * factor] \<and> wf_tensor y"
proof -
  from init have rg: "residual_groups m = groups"
    and ic: "Conv2d_init ci d 3 1 1 (in_conv m)"
    and bl: "list_all (\<lambda>p. AttentionBlock_init d False ws nh (fst p) \<and>
                          AttentionBlock_init d True ws nh (snd p)) (sr_blocks m)"
    and oc: "Conv2d_init d (factor ^ 2 * co) 3 1 1 (out_conv m)"
    and sh: "out_shuffle m = factor"
    by (simp_all add: TransformerSR_init_def)
  have k: "3 \<le> H + 2 * 1" "3 \<le> W + 2 * 1" using pos by simp_all
  have one: "(0::nat) < 1" by simp
  have sx0: "shape (sub_scalar x (1 / 2)) = [B, ci, H, W]" by (simp add: sx)
  from conv2d_shape[OF ic sx0 ch(1,2) one k] obtain x1 where
    x1: "conv2d (in_conv m) (sub_scalar x (1 / 2)) = Some x1" "shape x1 = [B, d, H, W]"
      "wf_tensor x1" using pos by auto
  have blocks: "\<exists>y. b t = Some y \<and> wf_tensor y \<and> shape y = [B, d, H, W]"
    if "b \<in> set (map block_pair (sr_blocks m))" "wf_tensor t" "shape t = [B, d, H, W]" for b t
  proof -
    from that(1) obtain p where p: "p \<in> set (sr_blocks m)" "b = block_pair p" by auto
    with bl have "AttentionBlock_init d False ws nh (fst p)" "AttentionBlock_init d True ws nh (snd p)"
      by (auto simp: list_all_iff)
    from block_pair_shape[OF this nh ws that(2,3)] show ?thesis by (simp add: p(2))
  qed
  have nz: "0 \<notin> fst ` set (init_residual groups)" using groups by (simp add: init_residual_keys)
  have held: "wf_tensor t \<and> shape t = [B, d, H, W]"
    if "map_of (init_residual groups) p = Some (Held t)" for p t
    using that by (simp add: init_residual_map_of split: if_splits)
  have "\<exists>x2 r. run_blocks 0 (map block_pair (sr_blocks m)) (x1, init_residual groups) = Some (x2, r) \<and>
      wf_tensor x2 \<and> shape x2 = [B, d, H, W]"
  proof (rule run_blocks_shape[OF _ nz _ x1(3) x1(2)])
    fix b and t :: "real tensor"
    assume "b \<in> set (map block_pair (sr_blocks m))" "wf_tensor t" "shape t = [B, d, H, W]"
    then show "\<exists>y. b t = Some y \<and> wf_tensor y \<and> shape y = [B, d, H, W]" by (rule blocks)
  next
    fix p t assume "map_of (init_residual groups) p = Some (Held t)"
    then show "wf_tensor t \<and> shape t = [B, d, H, W]" by (rule held)
  qed
  then obtain x2 r where
    x2: "run_blocks 0 (map block_pair (sr_blocks m)) (x1, init_residual groups) = Some (x2, r)"
      "wf_tensor x2" "shape x2 = [B, d, H, W]" by blast
  have oco: "0 < factor ^ 2 * co" using factor ch(3) by simp
  from conv2d_shape[OF oc x2(3) ch(2) oco one k] obtain x3 where
    x3: "conv2d (out_conv m) x2 = Some x3" "shape x3 = [B, factor ^ 2 * co, H, W]" "wf_tensor x3"
    using pos by auto
  have x3s: "shape x3 = [B, co * (factor * factor), H, W]"
    by (simp add: x3(2) power2_eq_square mult.commute)
  from pixel_shuffle_shape[OF x3s factor] obtain x4 where
    x4: "pixel_shuffle factor x3 = Some x4" "shape x4 = [B, co, H * factor, W * factor]"
      "wf_tensor x4"
      "\<forall>b c h w i j. b < B \<and> c < co \<and> h < H \<and> w < W \<and> i < factor \<and> j < factor \<longrightarrow>
        data x4 ! ravel [B, co, H * factor, W * factor] [b, c, h * factor + i, w * factor + j] =
        data x3 ! ravel [B, co * (factor * factor), H, W]
                    [b, c * (factor * factor) + i * factor + j, h, w]"
    by blast
  define y where "y = add_scalar x4 (1 / 2)"
  have fw: "TransformerSR_forward m x = Some y"
    by (simp add: TransformerSR_forward_def rg x1(1) x2(1) x3(1) sh x4(1) y_def)
  have ys: "shape y = [B, co, H * factor, W * factor]" by (simp add: y_def x4(2))
  have wfy: "wf_tensor y" unfolding y_def using x4(3) by (rule wf_add_scalar)
  show ?thesis
    using x1(1) x1(2) x2(1) x2(3) x3(1) x3s x4(1) x4(2) x4(4) y_def fw ys wfy by blast
qed



lemma example_conv_init: "Conv2d_init ci co k s p (example_conv ci co k s p)"
  by (simp add: Conv2d_init_def example_conv_def wf_tensor_def)

lemma example_sr_init: "TransformerSR_init 2 [2] 4 2 2 1 3 3 example_sr"
  by (simp add: TransformerSR_init_def example_sr_def example_pair_def example_conv_init
      example_block_init)

lemma example_image_wf: "wf_tensor (example_image H W)" "shape (example_image H W) = [1, 3, H, W]"
  by (simp_all add: example_image_def wf_tensor_def)

section \<open>Classifier: constructor and shapes\<close>


lemma get_Some: "i < length xs \<Longrightarrow> get xs i = Some (xs ! i)"
  by (simp add: get_def)

lemma add_pairs_eq:
  assumes "i < length dims"
  shows "add_pairs n dims ws nh i acc =
         Some (acc @ concat (replicate n [AttentionBlock_spec (dims ! i) False (ws div 2 ^ i) nh,
                                          AttentionBlock_spec (dims ! i) True (ws div 2 ^ i) nh]))"
  using assms by (induction n arbitrary: acc) (simp_all add: get_Some)

lemma add_stage_eq:
  assumes "i < length dims"
  shows "(if i > 0
          then do { a \<leftarrow> get dims (i - 1); b \<leftarrow> get dims i; Some (acc @ [Conv2d_spec a b 2 2 0]) }
          else Some acc) \<bind> add_pairs g dims ws nh i = Some (acc @ spec_stage dims ws nh i g)"
proof (cases "i = 0")
  case True
  show ?thesis
    unfolding spec_stage_def using add_pairs_eq[OF assms, of g ws nh acc] True by simp
next
  case False
  then have "i - 1 < length dims" using assms by simp
  then show ?thesis
    unfolding spec_stage_def
    using add_pairs_eq[OF assms, of g ws nh "acc @ [Conv2d_spec (dims ! (i - 1)) (dims ! i) 2 2 0]"] False assms
    by (simp add: get_Some)
qed

lemma add_stages_eq:
  assumes "i + length gs \<le> length dims"
  shows "add_stages gs dims ws nh i acc =
         Some (acc @ concat (map (\<lambda>j. spec_stage dims ws nh (i + j) (gs ! j)) [0..<length gs]))"
  using assms
proof (induction gs arbitrary: i acc)
  case Nil
  then show ?case by simp
next
  case (Cons g gs)
  have i: "i < length dims" and rest: "Suc i + length gs \<le> length dims" using Cons.prems by simp_all
  have "add_stages (g # gs) dims ws nh i acc =
        ((if i > 0
          then do { a \<leftarrow> get dims (i - 1); b \<leftarrow> get dims i; Some (acc @ [Conv2d_spec a b 2 2 0]) }
          else Some acc) \<bind> add_pairs g dims ws nh i) \<bind> add_stages gs dims ws nh (Suc i)"
    by (simp del: bind_assoc add: bind_assoc[symmetric])
  also have "\<dots> = add_stages gs dims ws nh (Suc i) (acc @ spec_stage dims ws nh i g)"
    unfolding add_stage_eq[OF i] by simp
  also have "\<dots> = Some ((acc @ spec_stage dims ws nh i g) @
      concat (map (\<lambda>j. spec_stage dims ws nh (Suc i + j) (gs ! j)) [0..<length gs]))"
    by (rule Cons.IH[OF rest])
  also have "(acc @ spec_stage dims ws nh i g) @
      concat (map (\<lambda>j. spec_stage dims ws nh (Suc i + j) (gs ! j)) [0..<length gs]) =
      acc @ concat (map (\<lambda>j. spec_stage dims ws nh (i + j) ((g # gs) ! j)) [0..<length (g # gs)])"
    by (simp add: map_upt_Suc del: upt_Suc)
  finally show ?case .
qed

lemma classifier_init_eq:
  assumes "length groups \<le> length dims" "dims \<noteq> []"
  shows "Classifier_init groups dims ws nh nc ic = Some (spec_classifier_layers groups dims ws nh nc ic)"
proof -
  have "0 < length dims" using assms(2) by simp
  then have g0: "get dims 0 = Some (dims ! 0)" by (rule get_Some)
  have "0 + length groups \<le> length dims" using assms(1) by simp
  from add_stages_eq[OF this] show ?thesis
    using assms(2) by (simp add: Classifier_init_def g0 spec_classifier_layers_def)
qed



lemma layer_init_Conv2dD:
  "layer_init (Conv2d_spec ci co k s p) l \<Longrightarrow> \<exists>c. l = Conv2d c \<and> Conv2d_init ci co k s p c"
  by (cases l) simp_all

lemma layer_init_AttentionBlockD:
  "layer_init (AttentionBlock_spec d tr ws nh) l \<Longrightarrow>
   \<exists>b. l = AttentionBlock b \<and> AttentionBlock_init d tr ws nh b"
  by (cases l) simp_all

lemma layer_init_PoolD: "layer_init (AdaptiveAvgPool2d_spec n) l \<Longrightarrow> l = AdaptiveAvgPool2d \<and> n = 1"
  by (cases l) simp_all

lemma layer_init_FlattenD: "layer_init Flatten_spec l \<Longrightarrow> l = Flatten"
  by (cases l) simp_all

lemma layer_init_LinearD:
  "layer_init (Linear_spec i k) l \<Longrightarrow> \<exists>c. l = Linear c \<and> Linear_init i k c"
  by (cases l) simp_all

lemma spec_classifier_example:
  "spec_classifier_layers [1, 1] [16, 32] 8 nh nc 3 =
     [Conv2d_spec 3 16 3 1 1,
      AttentionBlock_spec 16 False 8 nh, AttentionBlock_spec 16 True 8 nh,
      Conv2d_spec 16 32 2 2 0,
      AttentionBlock_spec 32 False 4 nh, AttentionBlock_spec 32 True 4 nh,
      AdaptiveAvgPool2d_spec 1, Flatten_spec, Linear_spec 32 nc]"
  by (simp add: spec_classifier_layers_def spec_stage_def upt_rec)

lemma classifier_example_shape:
  assumes ls: "list_all2 layer_init (spec_classifier_layers [1, 1] [16, 32] 8 nh nc 3) blocks"
    and nh: "0 < nh" "nh dvd 16" and wf: "wf_tensor x" and sx: "shape x = [1, 3, 64, 64]"
  shows "\<exists>y. Classifier_forward blocks x = Some y \<and> shape y = [1, nc] \<and> wf_tensor y"
proof -
  from ls obtain l0 l1 l2 l3 l4 l5 l6 l7 l8 where
    blocks: "blocks = [l0, l1, l2, l3, l4, l5, l6, l7, l8]"
    and i0: "layer_init (Conv2d_spec 3 16 3 1 1) l0"
    and i1: "layer_init (AttentionBlock_spec 16 False 8 nh) l1"
    and i2: "layer_init (AttentionBlock_spec 16 True 8 nh) l2"
    and i3: "layer_init (Conv2d_spec 16 32 2 2 0) l3"
    and i4: "layer_init (AttentionBlock_spec 32 False 4 nh) l4"
    and i5: "layer_init (AttentionBlock_spec 32 True 4 nh) l5"
    and i6: "layer_init (AdaptiveAvgPool2d_spec 1) l6"
    and i7: "layer_init Flatten_spec l7"
    and i8: "layer_init (Linear_spec 32 nc) l8"
    unfolding spec_classifier_example by (auto simp: list_all2_Cons1)
  from layer_init_Conv2dD[OF i0] obtain c0 where c0: "l0 = Conv2d c0" "Conv2d_init 3 16 3 1 1 c0" by auto
  from layer_init_AttentionBlockD[OF i1] obtain b1 where
    b1: "l1 = AttentionBlock b1" "AttentionBlock_init 16 False 8 nh b1" by auto
  from layer_init_AttentionBlockD[OF i2] obtain b2 where
    b2: "l2 = AttentionBlock b2" "AttentionBlock_init 16 True 8 nh b2" by auto
  from layer_init_Conv2dD[OF i3] obtain c3 where c3: "l3 = Conv2d c3" "Conv2d_init 16 32 2 2 0 c3" by auto
  from layer_init_AttentionBlockD[OF i4] obtain b4 where
    b4: "l4 = AttentionBlock b4" "AttentionBlock_init 32 False 4 nh b4" by auto
  from layer_init_AttentionBlockD[OF i5] obtain b5 where
    b5: "l5 = AttentionBlock b5" "AttentionBlock_init 32 True 4 nh b5" by auto
  from layer_init_PoolD[OF i6] have l6: "l6 = AdaptiveAvgPool2d" by simp
  from layer_init_FlattenD[OF i7] have l7: "l7 = Flatten" .
  from layer_init_LinearD[OF i8] obtain c8 where c8: "l8 = Linear c8" "Linear_init 32 nc c8" by auto
  have nh32: "nh dvd 32" using nh(2) by (rule dvd_trans) simp
  have one: "(0::nat) < 1" and two: "(0::nat) < 2" by simp_all
  have sx0: "shape (sub_scalar x (1 / 2)) = [1, 3, 64, 64]" by (simp add: sx)
  have k3: "(3::nat) \<le> 64 + 2 * 1" by simp
  have p3: "(0::nat) < 3" and p16: "(0::nat) < 16" and p32: "(0::nat) < 32" by simp_all
  from conv2d_shape[OF c0(2) sx0 p3 p16 one k3 k3] obtain x1 where
    x1: "conv2d c0 (sub_scalar x (1 / 2)) = Some x1" "shape x1 = [1, 16, 64, 64]" "wf_tensor x1"
    by auto
  have w8: "\<not> False \<longrightarrow> (0::nat) < 8 \<and> (8::nat) dvd 64 \<and> (8::nat) dvd 64" by simp
  from attention_block_shape[OF b1(2) nh x1(3) x1(2) w8] obtain x2 where
    x2: "AttentionBlock_forward b1 x1 = Some x2" "shape x2 = [1, 16, 64, 64]" "wf_tensor x2" by auto
  have wt: "\<not> True \<longrightarrow> (0::nat) < w \<and> w dvd H \<and> w dvd W" for w H W :: nat by simp
  from attention_block_shape[OF b2(2) nh x2(3) x2(2) wt] obtain x3 where
    x3: "AttentionBlock_forward b2 x2 = Some x3" "shape x3 = [1, 16, 64, 64]" "wf_tensor x3" by auto
  have k2: "(2::nat) \<le> 64 + 2 * 0" by simp
  from conv2d_shape[OF c3(2) x3(2) p16 p32 two k2 k2] obtain x4 where
    x4: "conv2d c3 x3 = Some x4" "shape x4 = [1, 32, 32, 32]" "wf_tensor x4" by auto
  have w4: "\<not> False \<longrightarrow> (0::nat) < 4 \<and> (4::nat) dvd 32 \<and> (4::nat) dvd 32" by simp
  from attention_block_shape[OF b4(2) nh(1) nh32 x4(3) x4(2) w4] obtain x5 where
    x5: "AttentionBlock_forward b4 x4 = Some x5" "shape x5 = [1, 32, 32, 32]" "wf_tensor x5" by auto
  from attention_block_shape[OF b5(2) nh(1) nh32 x5(3) x5(2) wt] obtain x6 where
    x6: "AttentionBlock_forward b5 x5 = Some x6" "shape x6 = [1, 32, 32, 32]" "wf_tensor x6" by auto
  from adaptive_avg_pool_shape[OF x6(2)] obtain x7 where
    x7: "adaptive_avg_pool_1 x6 = Some x7" "shape x7 = [1, 32, 1, 1]" "wf_tensor x7" by auto
  from flatten_1_shape[OF x7(3) x7(2)] obtain x8 where
    x8: "flatten_t x7 1 = Some x8" "shape x8 = [1] @ [32]" "wf_tensor x8" by auto
  from Linear_init_shape[OF c8(2) x8(2)] obtain y where
    y: "linear c8 x8 = Some y" "shape y = [1, nc]" "wf_tensor y" by auto
  have "Classifier_forward blocks x = Some y"
    by (simp add: Classifier_forward_def blocks c0(1) b1(1) b2(1) c3(1) b4(1) b5(1) l6 l7 c8(1)
        x1(1) x2(1) x3(1) x4(1) x5(1) x6(1) x7(1) x8(1) y(1))
  then show ?thesis using y by simp
qed



lemma example_linear_init: "Linear_init i k (example_linear i k)"
  by (simp add: Linear_init_def example_linear_def wf_tensor_def)

lemma example_classifier_init:
  "list_all2 layer_init (spec_classifier_layers [1, 1] [16, 32] 8 4 10 3) example_classifier"
  unfolding spec_classifier_example
  by (simp add: example_classifier_def example_conv_init example_block_init example_linear_init)

text \<open>
  Running the layer list of a classifier is running its pipeline: the first convolution
  on the shifted input, the stages in order, pooling, flattening, projection. Conversely
  every layer list built from the constructor's specifications has that form.
\<close>

lemma run_layers_append: "run_layers (a @ b) x = run_layers a x \<bind> run_layers b"
  by (induction a arbitrary: x) (simp_all split: bind_split)

lemma run_layers_pairs:
  "run_layers (concat (map (\<lambda>p. [AttentionBlock (fst p), AttentionBlock (snd p)]) ps)) x =
   spec_run_pairs ps x"
  by (induction ps arbitrary: x) (simp_all cong: Option.bind_cong)

lemma run_layers_pairs_fun:
  "run_layers (concat (map (\<lambda>p. [AttentionBlock (fst p), AttentionBlock (snd p)]) ps)) =
   spec_run_pairs ps"
  by (rule ext) (rule run_layers_pairs)

lemma run_layers_stage: "run_layers (stage_layers st) x = spec_run_stage st x"
  by (cases "fst st") (simp_all add: stage_layers_def spec_run_stage_def run_layers_pairs_fun)

lemma run_layers_stage_fun: "run_layers (stage_layers st) = spec_run_stage st"
  by (rule ext) (rule run_layers_stage)

lemma run_layers_stages:
  "run_layers (concat (map stage_layers sts)) x = spec_run_stages sts x"
proof (induction sts arbitrary: x)
  case Nil
  then show ?case by simp
next
  case (Cons st sts)
  have "run_layers (concat (map stage_layers sts)) = spec_run_stages sts"
    by (rule ext) (rule Cons.IH)
  then show ?case by (simp add: run_layers_append run_layers_stage)
qed

lemma run_layers_stages_fun: "run_layers (concat (map stage_layers sts)) = spec_run_stages sts"
  by (rule ext) (rule run_layers_stages)

lemma classifier_forward_layers:
  "Classifier_forward (classifier_layers c0 stages lin) x = spec_classifier_forward c0 stages lin x"
proof -
  have "run_layers (concat (map stage_layers stages) @ [AdaptiveAvgPool2d, Flatten, Linear lin]) =
        (\<lambda>x1. do {
           x2 \<leftarrow> spec_run_stages stages x1;
           x3 \<leftarrow> adaptive_avg_pool_1 x2;
           x4 \<leftarrow> flatten_t x3 1;
           linear lin x4
         })"
  proof (rule ext)
    fix x1
    have l0: "run_layers [] = Some"
      by (rule ext) simp
    have l1: "run_layers [Linear lin] = linear lin"
      by (rule ext) (simp add: l0)
    have l2: "run_layers [Flatten, Linear lin] = (\<lambda>x3. do { x4 \<leftarrow> flatten_t x3 1; linear lin x4 })"
      by (rule ext) (simp add: l1)
    have tail: "run_layers [AdaptiveAvgPool2d, Flatten, Linear lin] =
        (\<lambda>x2. do { x3 \<leftarrow> adaptive_avg_pool_1 x2; x4 \<leftarrow> flatten_t x3 1; linear lin x4 })"
      by (rule ext) (simp add: l2)
    show "run_layers (concat (map stage_layers stages) @ [AdaptiveAvgPool2d, Flatten, Linear lin]) x1 =
          do {
            x2 \<leftarrow> spec_run_stages stages x1;
            x3 \<leftarrow> adaptive_avg_pool_1 x2;
            x4 \<leftarrow> flatten_t x3 1;
            linear lin x4
          }"
      unfolding run_layers_append run_layers_stages tail ..
  qed
  then show ?thesis
    by (simp add: Classifier_forward_def classifier_layers_def spec_classifier_forward_def)
qed

lemma pairs_decompose:
  assumes "list_all2 layer_init
             (concat (replicate g [AttentionBlock_spec d False w nh, AttentionBlock_spec d True w nh])) ls"
  shows "\<exists>ps. ls = concat (map (\<lambda>p. [AttentionBlock (fst p), AttentionBlock (snd p)]) ps) \<and>
              length ps = g \<and>
              list_all (\<lambda>p. AttentionBlock_init d False w nh (fst p) \<and>
                            AttentionBlock_init d True w nh (snd p)) ps"
  using assms
proof (induction g arbitrary: ls)
  case 0
  then show ?case by simp
next
  case (Suc g)
  from Suc.prems obtain l1 l2 ls' where ls: "ls = l1 # l2 # ls'"
    and i1: "layer_init (AttentionBlock_spec d False w nh) l1"
    and i2: "layer_init (AttentionBlock_spec d True w nh) l2"
    and rest: "list_all2 layer_init
             (concat (replicate g [AttentionBlock_spec d False w nh, AttentionBlock_spec d True w nh])) ls'"
    by (auto simp: list_all2_Cons1)
  from layer_init_AttentionBlockD[OF i1] obtain a where a: "l1 = AttentionBlock a"
    "AttentionBlock_init d False w nh a" by auto
  from layer_init_AttentionBlockD[OF i2] obtain b where b: "l2 = AttentionBlock b"
    "AttentionBlock_init d True w nh b" by auto
  from Suc.IH[OF rest] obtain ps where
    ps: "ls' = concat (map (\<lambda>p. [AttentionBlock (fst p), AttentionBlock (snd p)]) ps)"
      "length ps = g"
      "list_all (\<lambda>p. AttentionBlock_init d False w nh (fst p) \<and>
                      AttentionBlock_init d True w nh (snd p)) ps"
    by blast
  show ?case
    by (rule exI[of _ "(a, b) # ps"]) (simp add: ls a b ps)
qed

lemma stage_decompose:
  assumes "list_all2 layer_init (spec_stage dims ws nh i (groups ! i)) ls"
  shows "\<exists>st. ls = stage_layers st \<and> stage_init groups dims ws nh i st"
proof (cases "i = 0")
  case True
  with assms have "list_all2 layer_init
      (concat (replicate (groups ! i) [AttentionBlock_spec (dims ! i) False (ws div 2 ^ i) nh,
                                       AttentionBlock_spec (dims ! i) True (ws div 2 ^ i) nh])) ls"
    by (simp add: spec_stage_def)
  from pairs_decompose[OF this] obtain ps where
    ps: "ls = concat (map (\<lambda>p. [AttentionBlock (fst p), AttentionBlock (snd p)]) ps)"
      "length ps = groups ! i"
      "list_all (\<lambda>p. AttentionBlock_init (dims ! i) False (ws div 2 ^ i) nh (fst p) \<and>
                      AttentionBlock_init (dims ! i) True (ws div 2 ^ i) nh (snd p)) ps"
    by blast
  show ?thesis
    by (rule exI[of _ "(None, ps)"]) (use True ps in \<open>simp add: stage_layers_def stage_init_def\<close>)
next
  case False
  with assms obtain l ls' where ls: "ls = l # ls'"
    and l: "layer_init (Conv2d_spec (dims ! (i - 1)) (dims ! i) 2 2 0) l"
    and rest: "list_all2 layer_init
      (concat (replicate (groups ! i) [AttentionBlock_spec (dims ! i) False (ws div 2 ^ i) nh,
                                       AttentionBlock_spec (dims ! i) True (ws div 2 ^ i) nh])) ls'"
    by (auto simp: spec_stage_def list_all2_Cons1)
  from layer_init_Conv2dD[OF l] obtain c where c: "l = Conv2d c"
    "Conv2d_init (dims ! (i - 1)) (dims ! i) 2 2 0 c" by auto
  from pairs_decompose[OF rest] obtain ps where
    ps: "ls' = concat (map (\<lambda>p. [AttentionBlock (fst p), AttentionBlock (snd p)]) ps)"
      "length ps = groups ! i"
      "list_all (\<lambda>p. AttentionBlock_init (dims ! i) False (ws div 2 ^ i) nh (fst p) \<and>
                      AttentionBlock_init (dims ! i) True (ws div 2 ^ i) nh (snd p)) ps"
    by blast
  show ?thesis
    by (rule exI[of _ "(Some c, ps)"])
       (use False ls c ps in \<open>simp add: stage_layers_def stage_init_def\<close>)
qed

lemma stages_decompose:
  assumes "list_all2 layer_init (concat (map (\<lambda>i. spec_stage dims ws nh i (groups ! i)) js)) ls"
  shows "\<exists>sts. ls = concat (map stage_layers sts) \<and>
               list_all2 (stage_init groups dims ws nh) js sts"
  using assms
proof (induction js arbitrary: ls)
  case Nil
  then show ?case by simp
next
  case (Cons j js)
  from Cons.prems obtain us vs where ls: "ls = us @ vs"
    and us: "list_all2 layer_init (spec_stage dims ws nh j (groups ! j)) us"
    and vs: "list_all2 layer_init (concat (map (\<lambda>i. spec_stage dims ws nh i (groups ! i)) js)) vs"
    by (auto simp: list_all2_append1)
  from stage_decompose[OF us] obtain st where st: "us = stage_layers st"
    "stage_init groups dims ws nh j st" by blast
  from Cons.IH[OF vs] obtain sts where sts: "vs = concat (map stage_layers sts)"
    "list_all2 (stage_init groups dims ws nh) js sts" by blast
  show ?case
    by (rule exI[of _ "st # sts"]) (simp add: ls st sts)
qed

lemma classifier_decompose:
  assumes "list_all2 layer_init (spec_classifier_layers groups dims ws nh nc ic) blocks"
  shows "\<exists>c0 stages lin. blocks = classifier_layers c0 stages lin \<and>
           Conv2d_init ic (dims ! 0) 3 1 1 c0 \<and>
           list_all2 (stage_init groups dims ws nh) [0..<length groups] stages \<and>
           Linear_init (last dims) nc lin"
proof -
  from assms obtain l0 rest where blocks: "blocks = l0 # rest"
    and l0: "layer_init (Conv2d_spec ic (dims ! 0) 3 1 1) l0"
    and rest: "list_all2 layer_init
        (concat (map (\<lambda>i. spec_stage dims ws nh i (groups ! i)) [0..<length groups]) @
         [AdaptiveAvgPool2d_spec 1, Flatten_spec, Linear_spec (last dims) nc]) rest"
    by (auto simp: spec_classifier_layers_def list_all2_Cons1)
  from rest obtain mid tail where r: "rest = mid @ tail"
    and mid: "list_all2 layer_init
        (concat (map (\<lambda>i. spec_stage dims ws nh i (groups ! i)) [0..<length groups])) mid"
    and tail: "list_all2 layer_init
        [AdaptiveAvgPool2d_spec 1, Flatten_spec, Linear_spec (last dims) nc] tail"
    by (auto simp: list_all2_append1)
  from tail obtain t1 t2 t3 where t: "tail = [t1, t2, t3]"
    and t1: "layer_init (AdaptiveAvgPool2d_spec 1) t1" and t2: "layer_init Flatten_spec t2"
    and t3: "layer_init (Linear_spec (last dims) nc) t3"
    by (auto simp: list_all2_Cons1)
  from layer_init_Conv2dD[OF l0] obtain c0 where c0: "l0 = Conv2d c0"
    "Conv2d_init ic (dims ! 0) 3 1 1 c0" by auto
  from layer_init_PoolD[OF t1] have p: "t1 = AdaptiveAvgPool2d" by simp
  from layer_init_FlattenD[OF t2] have f: "t2 = Flatten" .
  from layer_init_LinearD[OF t3] obtain lin where lin: "t3 = Linear lin"
    "Linear_init (last dims) nc lin" by auto
  from stages_decompose[OF mid] obtain stages where
    stages: "mid = concat (map stage_layers stages)"
      "list_all2 (stage_init groups dims ws nh) [0..<length groups] stages" by blast
  have "blocks = classifier_layers c0 stages lin"
    by (simp add: blocks r t c0 p f lin stages classifier_layers_def)
  with c0(2) stages(2) lin(2) show ?thesis by blast
qed


lemma tiny_conv_value:
  "conv2d tiny_conv (sub_scalar \<lparr>shape = [1, 1, 2, 2], data = [1, 2, 3, 4]\<rparr> (1 / 2)) =
   Some \<lparr>shape = [1, 1, 2, 2], data = [8, 8, 8, 8]\<rparr>"
  by code_simp

lemma tiny_pool_value:
  "adaptive_avg_pool_1 \<lparr>shape = [1, 1, 2, 2], data = [8, 8, 8, 8::real]\<rparr> =
   Some \<lparr>shape = [1, 1, 1, 1], data = [8]\<rparr>"
  by code_simp

lemma tiny_flatten_value:
  "flatten_t \<lparr>shape = [1, 1, 1, 1], data = [8::real]\<rparr> 1 = Some \<lparr>shape = [1, 1], data = [8]\<rparr>"
  by code_simp

lemma tiny_linear_value:
  "linear tiny_linear \<lparr>shape = [1, 1], data = [8]\<rparr> = Some \<lparr>shape = [1, 2], data = [8, 17]\<rparr>"
  by code_simp

lemma tiny_classifier_spec:
  "spec_classifier_forward tiny_conv [(None, [])] tiny_linear
     \<lparr>shape = [1, 1, 2, 2], data = [1, 2, 3, 4]\<rparr> =
   Some \<lparr>shape = [1, 2], data = [8, 17]\<rparr>"
  by (simp add: spec_classifier_forward_def spec_run_stage_def tiny_conv_value tiny_pool_value
      tiny_flatten_value tiny_linear_value del: One_nat_def)

lemma tiny_classifier_layers: "tiny_classifier = classifier_layers tiny_conv [(None, [])] tiny_linear"
  by (simp add: tiny_classifier_def classifier_layers_def stage_layers_def)

lemma example_classifier_layers:
  "example_classifier =
   classifier_layers (example_conv 3 16 3 1 1) example_stages (example_linear 32 10)"
  by (simp add: example_classifier_def classifier_layers_def stage_layers_def example_stages_def)
section \<open>The operations on small concrete tensors\<close>

text \<open>
  A \<open>4 \<times> 4\<close> map split into four \<open>2 \<times> 2\<close> windows in row-major window order; a window size
  that does not divide the map makes the first reshape fail; raster-scan flattening; the
  pixel shuffle with factor 2; the residual loop with period 2 over four blocks that each
  add 1; a convolution of kernel 2 and stride 2.
\<close>


lemma window_partition_example:
  "window_partition \<lparr>shape = [1, 1, 4, 4], data = [0 ..< 16]\<rparr> 2 =
     Some \<lparr>shape = [1, 4, 1, 2, 2],
           data = [0, 1, 4, 5, 2, 3, 6, 7, 8, 9, 12, 13, 10, 11, 14, 15]\<rparr>"
  by code_simp

lemma window_partition_indivisible_example:
  "window_partition \<lparr>shape = [1, 1, 4, 4], data = [0 ..< 16]\<rparr> 3 = None"
  by code_simp

lemma spatial_flatten_example:
  "spatial_flatten \<lparr>shape = [2, 2, 3], data = [0 ..< 12]\<rparr> =
     Some \<lparr>shape = [6, 2], data = [0, 6, 1, 7, 2, 8, 3, 9, 4, 10, 5, 11]\<rparr>"
  by code_simp

lemma pixel_shuffle_example:
  "pixel_shuffle 2 \<lparr>shape = [1, 4, 1, 2], data = [0 ..< 8]\<rparr> =
     Some \<lparr>shape = [1, 1, 2, 4], data = [0, 2, 1, 3, 4, 6, 5, 7]\<rparr>"
  by code_simp

lemma run_blocks_example:
  "run_blocks 0 (replicate 4 (\<lambda>x. Some (add_scalar x 1)))
     (\<lparr>shape = [1], data = [0]\<rparr>, init_residual [2]) =
   Some (\<lparr>shape = [1], data = [6]\<rparr>, [(2, Held \<lparr>shape = [1], data = [2]\<rparr>)])"
  by code_simp

lemma conv2d_example:
  "conv2d \<lparr>cv_weight = \<lparr>shape = [1, 1, 2, 2], data = [1, 1, 1, 1]\<rparr>,
           cv_bias = \<lparr>shape = [1], data = [0]\<rparr>, cv_stride = 2, cv_padding = 0\<rparr>
     \<lparr>shape = [1, 1, 2, 4], data = [1, 2, 3, 4, 5, 6, 7, 8]\<rparr> =
   Some \<lparr>shape = [1, 1, 1, 2], data = [14, 22]\<rparr>"
  by code_simp

section \<open>Window partition and its inverse\<close>

text \<open>
  Claim C4. For every well-formed tensor \<open>x\<close> of shape \<open>(B, C, H, W)\<close> and every
  positive window size \<open>w\<close> that divides \<open>H\<close> and \<open>W\<close>, \<open>window_partition x w\<close>
  succeeds, its result has shape \<open>(B, H * W // w\<^sup>2, C, w, w)\<close>, and
  \<open>window_unpartition\<close> of that result with the original \<open>H\<close> and \<open>W\<close> succeeds and
  returns \<open>x\<close> itself.
\<close>

theorem window_roundtrip:
  assumes wf: "wf_tensor x" and sx: "shape x = [B, C, H, W]"
    and w: "0 < w" "w dvd H" "w dvd W"
  shows "\<exists>y. window_partition x w = Some y \<and> shape y = [B, H * W div w ^ 2, C, w, w]
             \<and> window_unpartition y H W = Some x"
proof -
  let ?s1 = "[B, C, H div w, w, W div w, w]"
  let ?s3 = "[B, C, H * W div w ^ 2, w, w]"
  define x1 where "x1 = \<lparr>shape = ?s1, data = data x\<rparr>"
  have r1: "reshape x ?s1 = Some x1"
    using w by (simp add: reshape_def sx x1_def)
  have wf1: "wf_tensor x1" using wf r1 by (rule reshape_wf)
  have s1: "shape x1 = ?s1" by (simp add: x1_def)
  obtain x2 where p1: "permute x1 [0, 1, 2, 4, 3, 5] = Some x2"
    using permute_defined[of "[0, 1, 2, 4, 3, 5]" x1] sort_6 s1 by auto
  have s2: "shape x2 = [B, C, H div w, W div w, w, w]"
    using permute_shape[OF p1] by (simp add: s1)
  have wf2: "wf_tensor x2" using p1 by (rule permute_wf)
  define x3 where "x3 = \<lparr>shape = ?s3, data = data x2\<rparr>"
  have r2: "reshape x2 ?s3 = Some x3"
    using window_count[OF w] by (simp add: reshape_def s2 x3_def)
  have wf3: "wf_tensor x3" using wf2 r2 by (rule reshape_wf)
  have s3: "shape x3 = ?s3" by (simp add: x3_def)
  obtain x4 where p2: "permute x3 [0, 2, 1, 3, 4] = Some x4"
    using permute_defined[of "[0, 2, 1, 3, 4]" x3] sort_5 s3 by auto
  have s4: "shape x4 = [B, H * W div w ^ 2, C, w, w]"
    using permute_shape[OF p2] by (simp add: s3)
  have part: "window_partition x w = Some x4"
    using w(1) by (simp add: window_partition_def sx r1 p1 r2 p2 del: One_nat_def)
  have b1: "permute x4 [0, 2, 1, 3, 4] = Some x3"
    using permute_inverse[OF wf3 p2] unfolding inv_perm_5 .
  have b2: "reshape x3 [B, C, H div w, W div w, w, w] = Some x2"
    using reshape_inverse[OF r2] by (simp add: s2)
  have b3: "permute x2 [0, 1, 2, 4, 3, 5] = Some x1"
    using permute_inverse[OF wf1 p1] unfolding inv_perm_6 .
  have b4: "reshape x1 [B, C, H, W] = Some x"
    using reshape_inverse[OF r1] by (simp add: sx)
  have "window_unpartition x4 H W = Some x"
    using w(1) by (simp add: window_unpartition_def s4 b1 b2 b3 b4 del: One_nat_def)
  with part s4 show ?thesis by simp
qed

theorem window_roundtrip_witness:
  "wf_tensor \<lparr>shape = [1, 1, 4, 4], data = [0 ..< 16]\<rparr> \<and> (0::nat) < 2 \<and> (2::nat) dvd 4 \<and>
   (\<exists>y. window_partition \<lparr>shape = [1, 1, 4, 4], data = [0 ..< 16]\<rparr> 2 = Some y \<and>
        shape y = [1, 4, 1, 2, 2] \<and>
        window_unpartition y 4 4 = Some \<lparr>shape = [1, 1, 4, 4], data = [0 ..< 16]\<rparr>)"
proof -
  let ?t = "\<lparr>shape = [1, 1, 4, 4], data = [0 ..< 16]\<rparr> :: nat tensor"
  have wf: "wf_tensor ?t" by (simp add: wf_tensor_def)
  have sh: "shape ?t = [1, 1, 4, 4]" by simp
  have d: "(2::nat) dvd 4" by simp
  have "(4 * 4) div (2::nat) ^ 2 = 4" by simp
  with window_roundtrip [OF wf sh _ d d] wf d show ?thesis by simp
qed
section \<open>Spatial flattening and its inverse\<close>

text \<open>
  Claim C8. For every well-formed tensor \<open>x\<close> whose last three axes are \<open>(C, H, W)\<close>,
  \<open>spatial_flatten x\<close> succeeds with the last three axes replaced by \<open>(H * W, C)\<close>,
  \<open>spatial_unflatten\<close> of the result with \<open>H\<close> and \<open>W\<close> returns \<open>x\<close> itself, and the
  element of \<open>x\<close> at channel \<open>c\<close>, row \<open>h\<close>, column \<open>w\<close> is the element of the result at
  sequence position \<open>h * W + w\<close> (raster scan) and channel \<open>c\<close>.
\<close>

theorem spatial_roundtrip:
  assumes wf: "wf_tensor x" and sx: "shape x = pre @ [C, H, W]"
  shows "\<exists>y. spatial_flatten x = Some y \<and> shape y = pre @ [H * W, C] \<and>
             spatial_unflatten y H W = Some x \<and>
             (\<forall>ip c h w. list_all2 (<) ip pre \<and> c < C \<and> h < H \<and> w < W \<longrightarrow>
                 data y ! ravel (shape y) (ip @ [h * W + w, c]) =
                 data x ! ravel (shape x) (ip @ [c, h, w]))"
proof -
  let ?n = "length pre"
  define x1 where "x1 = \<lparr>shape = pre @ [C, H * W], data = data x\<rparr>"
  have w2: "wrap_dim (- 2) (length (shape x)) = Some (Suc ?n)"
    by (simp add: wrap_dim_def sx Let_def)
  have f: "flatten_t x (- 2) = Some x1"
    unfolding flatten_t_def w2 by (simp add: sx x1_def)
  have wf1: "wf_tensor x1" using wf by (simp add: wf_tensor_def x1_def sx)
  have s1: "shape x1 = pre @ [C, H * W]" by (simp add: x1_def)
  have wa: "wrap_dim (- 2) (length (shape x1)) = Some ?n"
    and wb: "wrap_dim (- 1) (length (shape x1)) = Some (Suc ?n)"
    by (simp_all add: wrap_dim_def s1 Let_def)
  have sw: "swap_at ?n (Suc ?n) (pre' @ [u, v]) = pre' @ [v, u]" if "length pre' = ?n" for pre' :: "nat list" and u v
    using that by (simp add: swap_at_def nth_append list_update_append)
  define y where "y = gather x1 (pre @ [H * W, C]) (swap_at ?n (Suc ?n))"
  have t: "transpose_t x1 (- 2) (- 1) = Some y"
    unfolding transpose_t_def wa wb by (simp add: y_def s1 sw)
  have sy: "shape y = pre @ [H * W, C]" by (simp add: y_def gather_def)
  have fl: "spatial_flatten x = Some y" by (simp add: spatial_flatten_def f t)
  have t': "transpose_t y (- 2) (- 1) = Some x1"
    using wf1 t by (rule transpose_involution)
  have w1: "wrap_dim (- 1) (length (shape x1)) = Some (Suc ?n)"
    by (simp add: wrap_dim_def s1 Let_def)
  have u: "unflatten_t x1 (- 1) [H, W] = Some x"
    unfolding unflatten_t_def w1 using sx by (simp add: s1 nth_append) (simp add: x1_def)
  have un: "spatial_unflatten y H W = Some x" by (simp add: spatial_unflatten_def t' u)
  have ord: "data y ! ravel (shape y) (ip @ [h * W + w, c]) = data x ! ravel (shape x) (ip @ [c, h, w])"
    if v: "list_all2 (<) ip pre" and c: "c < C" and h: "h < H" and w: "w < W" for ip c h w
  proof -
    have lip: "length ip = ?n" using v by (rule list_all2_lengthD)
    have "h * W + w < h * W + W" using w by simp
    also have "\<dots> = Suc h * W" by simp
    also have "\<dots> \<le> H * W" using h by (intro mult_le_mono1) simp
    finally have hw: "h * W + w < H * W" .
    have vy: "list_all2 (<) (ip @ [h * W + w, c]) (pre @ [H * W, C])"
      using v hw c by (intro list_all2_lt_append) simp_all
    have lt: "ravel (pre @ [H * W, C]) (ip @ [h * W + w, c]) < prod_list (pre @ [H * W, C])"
      using vy by (rule ravel_lt)
    have "data y ! ravel (shape y) (ip @ [h * W + w, c])
        = data x ! ravel (pre @ [C, H * W]) (swap_at ?n (Suc ?n) (ip @ [h * W + w, c]))"
      using lt unfolding sy by (simp add: y_def gather_def unravel_ravel[OF vy] x1_def)
    also have "swap_at ?n (Suc ?n) (ip @ [h * W + w, c]) = ip @ [c, h * W + w]"
      by (rule sw[OF lip])
    also have "ravel (pre @ [C, H * W]) (ip @ [c, h * W + w]) = ravel (shape x) (ip @ [c, h, w])"
      unfolding sx using lip by (simp add: ravel_append algebra_simps)
    finally show ?thesis .
  qed
  show ?thesis using fl sy un ord by blast
qed

theorem spatial_roundtrip_witness:
  "wf_tensor \<lparr>shape = [2, 2, 3], data = [0 ..< 12]\<rparr> \<and>
   (\<exists>y. spatial_flatten \<lparr>shape = [2, 2, 3], data = [0 ..< 12]\<rparr> = Some y \<and>
        shape y = [6, 2] \<and>
        spatial_unflatten y 2 3 = Some \<lparr>shape = [2, 2, 3], data = [0 ..< 12]\<rparr> \<and>
        data y ! ravel (shape y) [1 * 3 + 2, 1] = 11)"
proof -
  let ?t = "\<lparr>shape = [2, 2, 3], data = [0 ..< 12]\<rparr> :: nat tensor"
  have wf: "wf_tensor ?t" by (simp add: wf_tensor_def)
  have sh: "shape ?t = [] @ [2, 2, 3]" by simp
  obtain y where y: "spatial_flatten ?t = Some y" "shape y = [] @ [2 * 3, 2]"
      "spatial_unflatten y 2 3 = Some ?t"
    and ord: "\<forall>ip c h w. list_all2 (<) ip [] \<and> c < 2 \<and> h < 2 \<and> w < 3 \<longrightarrow>
        data y ! ravel (shape y) (ip @ [h * 3 + w, c]) = data ?t ! ravel (shape ?t) (ip @ [c, h, w])"
    using spatial_roundtrip [OF wf sh] by blast
  have "data y ! ravel (shape y) ([] @ [1 * 3 + 2, 1]) = data ?t ! ravel (shape ?t) ([] @ [1, 1, 2])"
    using ord by (intro ord[rule_format]) simp
  also have "\<dots> = 11" by simp
  finally show ?thesis using wf y by simp
qed
section \<open>Residual skip schedule\<close>

text \<open>
  Claim C3. For a residual dictionary \<open>r\<close> with distinct non-zero periods, the loop of
  \<open>TransformerSR.forward\<close> from any index \<open>i\<close> on is the schedule of the specification: before
  block \<open>i\<close> the buffer of every period \<open>p\<close> with \<open>i % p = 0\<close> is reset to the current
  features and every other buffer is kept (the two inner loops of the source compute
  exactly \<open>spec_reset\<close> and \<open>spec_close\<close>); after block \<open>i\<close> the buffers as they are after that
  reset are added, in key order, for exactly the periods with \<open>i % p = p - 1\<close>; the keys and
  their order never change, and a reset of one period leaves the others alone. Hence
  the forward pass of every network with non-zero periods runs this schedule between its
  two convolutions, and with \<open>residual_groups = [2]\<close> and four block-pairs it is the
  unrolled computation in which the input of pair 0 is added to the output of pair 1 and
  the input of pair 2 to the output of pair 3.
\<close>

theorem residual_schedule:
  assumes "distinct (map fst r)" and "0 \<notin> fst ` set r"
  shows "run_blocks i blocks (x, r) = spec_run_blocks i blocks (x, r) \<and>
         reset_residuals i x (map fst r) r = Some (spec_reset i x r) \<and>
         add_residuals i (map fst r) r y = spec_close i r y \<and>
         map fst (spec_reset i x r) = map fst r \<and>
         (\<forall>p\<in>fst ` set r.
            map_of (spec_reset i x r) p = (if int i mod p = 0 then Some (Held x) else map_of r p)) \<and>
         (0 \<notin> set (residual_groups m) \<longrightarrow>
            TransformerSR_forward m z =
              do {
                x1 \<leftarrow> conv2d (in_conv m) (sub_scalar z (1 / 2));
                (x2, r2) \<leftarrow> spec_run_blocks 0 (map block_pair (sr_blocks m))
                              (x1, init_residual (residual_groups m));
                x3 \<leftarrow> conv2d (out_conv m) x2;
                x4 \<leftarrow> pixel_shuffle (out_shuffle m) x3;
                Some (add_scalar x4 (1 / 2))
              }) \<and>
         (residual_groups m = [2] \<and> sr_blocks m = [b0, b1, b2, b3] \<longrightarrow>
            TransformerSR_forward m z =
              do {
                x0 \<leftarrow> conv2d (in_conv m) (sub_scalar z (1 / 2));
                y0 \<leftarrow> block_pair b0 x0;
                y1 \<leftarrow> block_pair b1 y0;
                x2 \<leftarrow> tadd y1 x0;
                y2 \<leftarrow> block_pair b2 x2;
                y3 \<leftarrow> block_pair b3 y2;
                x4 \<leftarrow> tadd y3 x2;
                x5 \<leftarrow> conv2d (out_conv m) x4;
                x6 \<leftarrow> pixel_shuffle (out_shuffle m) x5;
                Some (add_scalar x6 (1 / 2))
              })"
proof (intro conjI impI ballI)
  show "run_blocks i blocks (x, r) = spec_run_blocks i blocks (x, r)"
    using assms by (rule run_blocks_spec)
next
  show "reset_residuals i x (map fst r) r = Some (spec_reset i x r)"
    using assms by (rule reset_residuals_spec)
next
  show "add_residuals i (map fst r) r y = spec_close i r y"
    using assms by (rule add_residuals_spec)
next
  show "map fst (spec_reset i x r) = map fst r" by simp
next
  fix p assume "p \<in> fst ` set r"
  then obtain h where "map_of r p = Some h"
    by (metis domD dom_map_of_conv_image_fst)
  then show "map_of (spec_reset i x r) p = (if int i mod p = 0 then Some (Held x) else map_of r p)"
    by (simp add: spec_reset_map_of)
next
  assume nz: "0 \<notin> set (residual_groups m)"
  have d: "distinct (map fst (init_residual (residual_groups m)))" by (rule init_residual_distinct)
  have z: "0 \<notin> fst ` set (init_residual (residual_groups m))"
    using nz by (simp add: init_residual_keys)
  show "TransformerSR_forward m z =
              do {
                x1 \<leftarrow> conv2d (in_conv m) (sub_scalar z (1 / 2));
                (x2, r2) \<leftarrow> spec_run_blocks 0 (map block_pair (sr_blocks m))
                              (x1, init_residual (residual_groups m));
                x3 \<leftarrow> conv2d (out_conv m) x2;
                x4 \<leftarrow> pixel_shuffle (out_shuffle m) x3;
                Some (add_scalar x4 (1 / 2))
              }"
    unfolding TransformerSR_forward_def Let_def run_blocks_spec[OF d z] ..
next
  assume m: "residual_groups m = [2] \<and> sr_blocks m = [b0, b1, b2, b3]"
  show "TransformerSR_forward m z =
              do {
                x0 \<leftarrow> conv2d (in_conv m) (sub_scalar z (1 / 2));
                y0 \<leftarrow> block_pair b0 x0;
                y1 \<leftarrow> block_pair b1 y0;
                x2 \<leftarrow> tadd y1 x0;
                y2 \<leftarrow> block_pair b2 x2;
                y3 \<leftarrow> block_pair b3 y2;
                x4 \<leftarrow> tadd y3 x2;
                x5 \<leftarrow> conv2d (out_conv m) x4;
                x6 \<leftarrow> pixel_shuffle (out_shuffle m) x5;
                Some (add_scalar x6 (1 / 2))
              }"
    using m by (auto simp: TransformerSR_forward_def init_residual_def split: bind_split)
qed

text \<open>
  One iteration at index 3 with periods 2, 3 and 1: period 3 is reset, period 1 is reset
  and closes in the same iteration, period 2 closes on its earlier capture.
\<close>

theorem residual_schedule_witness:
  "distinct (map fst ([(2, Held \<lparr>shape = [1], data = [100]\<rparr>), (3, Held \<lparr>shape = [1], data = [1000]\<rparr>),
                       (1, Held \<lparr>shape = [1], data = [5]\<rparr>)] :: residual)) \<and>
   0 \<notin> fst ` set ([(2, Held \<lparr>shape = [1], data = [100]\<rparr>), (3, Held \<lparr>shape = [1], data = [1000]\<rparr>),
                     (1, Held \<lparr>shape = [1], data = [5]\<rparr>)] :: residual) \<and>
   run_blocks 3 [\<lambda>t. Some (add_scalar t 10)]
     (\<lparr>shape = [1], data = [1]\<rparr>,
      [(2, Held \<lparr>shape = [1], data = [100]\<rparr>), (3, Held \<lparr>shape = [1], data = [1000]\<rparr>),
       (1, Held \<lparr>shape = [1], data = [5]\<rparr>)]) =
   Some (\<lparr>shape = [1], data = [112]\<rparr>,
         [(2, Held \<lparr>shape = [1], data = [100]\<rparr>), (3, Held \<lparr>shape = [1], data = [1]\<rparr>),
          (1, Held \<lparr>shape = [1], data = [1]\<rparr>)]) \<and>
   TransformerSR_forward example_sr (example_image 2 2) =
     do {
       x0 \<leftarrow> conv2d (in_conv example_sr) (sub_scalar (example_image 2 2) (1 / 2));
       y0 \<leftarrow> block_pair example_pair x0;
       y1 \<leftarrow> block_pair example_pair y0;
       x2 \<leftarrow> tadd y1 x0;
       y2 \<leftarrow> block_pair example_pair x2;
       y3 \<leftarrow> block_pair example_pair y2;
       x4 \<leftarrow> tadd y3 x2;
       x5 \<leftarrow> conv2d (out_conv example_sr) x4;
       x6 \<leftarrow> pixel_shuffle (out_shuffle example_sr) x5;
       Some (add_scalar x6 (1 / 2))
     }"
proof -
  let ?r = "[(2, Held \<lparr>shape = [1], data = [100]\<rparr>), (3, Held \<lparr>shape = [1], data = [1000]\<rparr>),
             (1, Held \<lparr>shape = [1], data = [5]\<rparr>)] :: residual"
  let ?x = "\<lparr>shape = [1], data = [1]\<rparr> :: real tensor"
  let ?b = "\<lambda>t. Some (add_scalar t 10)"
  have d: "distinct (map fst ?r)" by simp
  have nz: "0 \<notin> fst ` set ?r" by simp
  have m: "residual_groups example_sr = [2] \<and>
           sr_blocks example_sr = [example_pair, example_pair, example_pair, example_pair]"
    by (simp add: example_sr_def)
  note t = residual_schedule[OF d nz, of 3 "[?b]" ?x ?x example_sr "example_image 2 2"
              example_pair example_pair example_pair example_pair]
  have 1: "run_blocks 3 [?b] (?x, ?r) =
      Some (\<lparr>shape = [1], data = [112]\<rparr>,
            [(2, Held \<lparr>shape = [1], data = [100]\<rparr>), (3, Held \<lparr>shape = [1], data = [1]\<rparr>),
             (1, Held \<lparr>shape = [1], data = [1]\<rparr>)])"
    using conjunct1[OF t] by (simp only: spec_run_blocks_example)
  from t m have 2: "TransformerSR_forward example_sr (example_image 2 2) =
     do {
       x0 \<leftarrow> conv2d (in_conv example_sr) (sub_scalar (example_image 2 2) (1 / 2));
       y0 \<leftarrow> block_pair example_pair x0;
       y1 \<leftarrow> block_pair example_pair y0;
       x2 \<leftarrow> tadd y1 x0;
       y2 \<leftarrow> block_pair example_pair x2;
       y3 \<leftarrow> block_pair example_pair y2;
       x4 \<leftarrow> tadd y3 x2;
       x5 \<leftarrow> conv2d (out_conv example_sr) x4;
       x6 \<leftarrow> pixel_shuffle (out_shuffle example_sr) x5;
       Some (add_scalar x6 (1 / 2))
     }" by blast
  show ?thesis by (intro conjI d nz 1 2)
qed

section \<open>What a closing period adds\<close>

text \<open>
  Claim C9. Let the residual periods be non-zero and let the loop of
  \<open>TransformerSR.forward\<close>, started from \<open>x0\<close>, have completed the iteration of index \<open>i\<close>
  with features \<open>xs\<close> and dictionary \<open>rs\<close>. Then \<open>xs\<close> is the output \<open>y\<close> of block \<open>i\<close> on the
  features the run held before it, to which the loop has added, for every period \<open>q\<close>
  with \<open>i % q = q - 1\<close> in key order, the features the same run held before block
  \<open>i - (q - 1)\<close>: tensors only, never the integer 0 the buffers are created with. And for
  every period \<open>p \<ge> 1\<close> that closes at \<open>i\<close>, \<open>p - 1 \<le> i\<close> and the buffer of \<open>p\<close> holds exactly
  those captured features.
\<close>

theorem residual_closes_on_captured:
  assumes nz: "0 \<notin> set groups"
    and run: "run_blocks 0 (take (Suc i) blocks) (x0, init_residual groups) = Some (xs, rs)"
    and i: "i < length blocks"
  shows "\<exists>xi y. features_before groups blocks x0 i = Some xi \<and> (blocks ! i) xi = Some y \<and>
           spec_add_captured groups blocks x0 i (map fst (init_residual groups)) y = Some xs \<and>
           (\<forall>p\<in>set groups. 1 \<le> p \<and> int i mod p = p - 1 \<longrightarrow>
              nat (p - 1) \<le> i \<and>
              (\<exists>f. features_before groups blocks x0 (i - nat (p - 1)) = Some f \<and>
                   map_of rs p = Some (Held f)))"
proof -
  let ?init = "init_residual groups"
  from run obtain xi ri where
    prev: "run_blocks 0 (take i blocks) (x0, ?init) = Some (xi, ri)"
    and last: "run_blocks i [blocks ! i] (xi, ri) = Some (xs, rs)"
    unfolding run_blocks_Suc[OF i] by (auto split: bind_splits)
  have il: "i \<le> length blocks" and sl: "Suc i \<le> length blocks" using i by simp_all
  have keys_i: "map fst ri = map fst ?init"
    using residual_invariant[OF nz il prev] by (rule conjunct1)
  note inv = residual_invariant[OF nz sl run]
  have keys: "map fst rs = map fst ?init" using inv by (rule conjunct1)
  have kset: "set (map fst rs) = set groups"
    unfolding keys by (simp add: init_residual_keys)
  have captured: "nat (p - 1) \<le> i \<and>
      (\<exists>f. features_before groups blocks x0 (i - nat (p - 1)) = Some f \<and> map_of rs p = Some (Held f))"
    if p: "p \<in> set groups" and p1: "1 \<le> p" and due: "int i mod p = p - 1" for p
  proof -
    have "int i mod p \<le> int i" using p1 by (simp add: zmod_le_nonneg_dividend)
    then have le: "nat (p - 1) \<le> i" using due by simp
    from conjunct2[OF inv] p p1 obtain xj rj where
      "run_blocks 0 (take (Suc i - 1 - nat (int (Suc i - 1) mod p)) blocks) (x0, ?init) = Some (xj, rj)"
      "map_of rs p = Some (Held xj)" by auto
    then have "features_before groups blocks x0 (i - nat (p - 1)) = Some xj"
      "map_of rs p = Some (Held xj)"
      using due by (simp_all add: features_before_def)
    with le show ?thesis by blast
  qed
  from last obtain r' y where
    r': "reset_residuals i xi (map fst ri) ri = Some r'" and y: "(blocks ! i) xi = Some y"
    and add: "add_residuals i (map fst r') r' y = Some xs" and rs: "rs = r'"
    by (auto split: bind_splits)
  have nzk: "0 \<notin> set (map fst rs)" unfolding kset by (rule nz)
  have sub: "set (map fst rs) \<subseteq> dom (map_of rs)" by (simp add: dom_map_of_conv_image_fst)
  have "add_residuals i (map fst rs) rs y =
      fold (\<lambda>p acc. acc \<bind> (\<lambda>x. if int i mod p = p - 1 then add_held x (the (map_of rs p)) else Some x))
           (map fst rs) (Some y)"
    using nzk sub by (rule add_residuals_fold)
  also have "\<dots> = spec_add_captured groups blocks x0 i (map fst rs) y"
    unfolding spec_add_captured_def
  proof (rule fold_cong[OF refl refl])
    fix q assume "q \<in> set (map fst rs)"
    then have q: "q \<in> set groups" unfolding kset .
    show "(\<lambda>acc. acc \<bind> (\<lambda>x. if int i mod q = q - 1 then add_held x (the (map_of rs q)) else Some x)) =
          (\<lambda>acc. acc \<bind> (\<lambda>t. if int i mod q = q - 1
                                then (case features_before groups blocks x0 (i - nat (q - 1)) of
                                        None \<Rightarrow> None | Some f \<Rightarrow> tadd t f)
                                else Some t))"
    proof (cases "int i mod q = q - 1")
      case False
      then show ?thesis by simp
    next
      case True
      have "q \<noteq> 0" using q nz by auto
      moreover have "\<not> q < 0" using never_due_negative[of q i] True by auto
      ultimately have q1: "1 \<le> q" by simp
      from captured[OF q q1 True] obtain f where
        "features_before groups blocks x0 (i - nat (q - 1)) = Some f" "map_of rs q = Some (Held f)"
        by blast
      then show ?thesis using True by simp
    qed
  qed
  finally have "spec_add_captured groups blocks x0 i (map fst rs) y = Some xs"
    using add rs by simp
  then have a: "spec_add_captured groups blocks x0 i (map fst ?init) y = Some xs"
    unfolding keys .
  have f: "features_before groups blocks x0 i = Some xi"
    by (simp add: features_before_def prev)
  show ?thesis using f y a captured by blast
qed

text \<open>
  Periods 2, -3 and 1 over two blocks that each add 10, from the features 1: at index 1
  the block gives 22, period 2 adds the features of index 0 (1), period 1 those of index
  1 (12), and the negative period never closes.
\<close>

theorem residual_closes_on_captured_witness:
  "(0::int) \<notin> set [2, - 3, 1] \<and>
   run_blocks 0 (take (Suc 1) [\<lambda>t. Some (add_scalar t 10), \<lambda>t. Some (add_scalar t 10)])
     (\<lparr>shape = [1], data = [1]\<rparr>, init_residual [2, - 3, 1]) =
   Some (\<lparr>shape = [1], data = [35]\<rparr>,
         [(2, Held \<lparr>shape = [1], data = [1]\<rparr>), (- 3, Held \<lparr>shape = [1], data = [1]\<rparr>),
          (1, Held \<lparr>shape = [1], data = [12]\<rparr>)]) \<and>
   spec_add_captured [2, - 3, 1] [\<lambda>t. Some (add_scalar t 10), \<lambda>t. Some (add_scalar t 10)]
     \<lparr>shape = [1], data = [1]\<rparr> 1 [2, - 3, 1] \<lparr>shape = [1], data = [22]\<rparr> =
   Some \<lparr>shape = [1], data = [35]\<rparr> \<and>
   features_before [2, - 3, 1] [\<lambda>t. Some (add_scalar t 10), \<lambda>t. Some (add_scalar t 10)]
     \<lparr>shape = [1], data = [1]\<rparr> (1 - nat (2 - 1)) = Some \<lparr>shape = [1], data = [1]\<rparr> \<and>
   features_before [2, - 3, 1] [\<lambda>t. Some (add_scalar t 10), \<lambda>t. Some (add_scalar t 10)]
     \<lparr>shape = [1], data = [1]\<rparr> (1 - nat (1 - 1)) = Some \<lparr>shape = [1], data = [12]\<rparr>"
proof -
  let ?b = "\<lambda>t. Some (add_scalar t 10)"
  let ?g = "[2, - 3, 1] :: int list"
  let ?x0 = "\<lparr>shape = [1], data = [1]\<rparr> :: real tensor"
  let ?rs = "[(2, Held \<lparr>shape = [1], data = [1]\<rparr>), (- 3, Held \<lparr>shape = [1], data = [1]\<rparr>),
              (1, Held \<lparr>shape = [1], data = [12]\<rparr>)] :: residual"
  have nz: "(0::int) \<notin> set ?g" by simp
  have i: "1 < length [?b, ?b]" by simp
  from residual_closes_on_captured[OF nz captured_example_run i]
  obtain xi y where
    xi: "features_before ?g [?b, ?b] ?x0 1 = Some xi" and y: "([?b, ?b] ! 1) xi = Some y"
    and a: "spec_add_captured ?g [?b, ?b] ?x0 1 (map fst (init_residual ?g)) y =
            Some \<lparr>shape = [1], data = [35]\<rparr>"
    and c: "\<forall>p\<in>set ?g. 1 \<le> p \<and> int 1 mod p = p - 1 \<longrightarrow>
              nat (p - 1) \<le> 1 \<and>
              (\<exists>f. features_before ?g [?b, ?b] ?x0 (1 - nat (p - 1)) = Some f \<and>
                   map_of ?rs p = Some (Held f))"
    by blast
  from xi[unfolded captured_example_features(2)]
  have "xi = \<lparr>shape = [1], data = [12]\<rparr>" by simp
  with y have "y = \<lparr>shape = [1], data = [22]\<rparr>" by (auto simp: add_scalar_def tmap_def)
  with a have 1: "spec_add_captured ?g [?b, ?b] ?x0 1 [2, - 3, 1] \<lparr>shape = [1], data = [22]\<rparr> =
      Some \<lparr>shape = [1], data = [35]\<rparr>"
    by (simp only: captured_example_keys)
  from c have "\<exists>f. features_before ?g [?b, ?b] ?x0 (1 - nat (2 - 1)) = Some f \<and>
                   map_of ?rs 2 = Some (Held f)"
    by simp
  then have 2: "features_before ?g [?b, ?b] ?x0 (1 - nat (2 - 1)) = Some \<lparr>shape = [1], data = [1]\<rparr>"
    by auto
  from c have "\<exists>f. features_before ?g [?b, ?b] ?x0 (1 - nat (1 - 1)) = Some f \<and>
                   map_of ?rs 1 = Some (Held f)"
    by simp
  then have 3: "features_before ?g [?b, ?b] ?x0 (1 - nat (1 - 1)) = Some \<lparr>shape = [1], data = [12]\<rparr>"
    by auto
  show ?thesis by (intro conjI nz captured_example_run 1 2 3)
qed

section \<open>Standard attention\<close>

text \<open>
  Claim C1, as amended. For every well-formed input of shape \<open>(B, N, L, C)\<close> and every
  standard (\<open>transposed = False\<close>) attention module constructed for \<open>C\<close> channels and
  \<open>nh > 0\<close> heads with \<open>nh\<close> dividing \<open>C\<close>, \<open>MultiHeadSelfAttention.forward\<close> computes,
  per head, \<open>softmax(Q \<cdot> K\<^sup>T / head_dim\<^sup>2) \<cdot> V\<close> with the softmax over the last (key) axis:
  query and key are each divided by \<open>head_dim\<close>, so the scores are the query-key product
  divided by \<open>head_dim\<close> twice. The heads are then flattened and the output projection
  applied; the result exists and has the shape of the input.
\<close>

theorem standard_attention_scaling:
  assumes "MultiHeadSelfAttention_init C False nh m" and "0 < nh" and "nh dvd C"
    and "wf_tensor x" and "shape x = [B, N, L, C]"
  shows "MultiHeadSelfAttention_forward m x =
           spec_standard_forward m x (real (C div nh) * real (C div nh)) \<and>
         (\<exists>y. MultiHeadSelfAttention_forward m x = Some y \<and> shape y = [B, N, L, C] \<and> wf_tensor y)"
  using assms by (rule standard_forward_eq)

theorem standard_attention_scaling_witness:
  "MultiHeadSelfAttention_init 2 False 1 cx_attention \<and> (0::nat) < 1 \<and> (1::nat) dvd 2 \<and>
   wf_tensor cx_input \<and> shape cx_input = [1, 1, 2, 2] \<and>
   MultiHeadSelfAttention_forward cx_attention cx_input = spec_standard_forward cx_attention cx_input 4 \<and>
   (\<exists>y. MultiHeadSelfAttention_forward cx_attention cx_input = Some y \<and> shape y = [1, 1, 2, 2] \<and>
        wf_tensor y)"
proof -
  have a: "(0::nat) < 1" and b: "(1::nat) dvd 2" by simp_all
  note t = standard_attention_scaling[OF cx_attention_init a b cx_input_wf]
  have e: "MultiHeadSelfAttention_forward cx_attention cx_input =
           spec_standard_forward cx_attention cx_input 4"
    using conjunct1[OF t] by simp
  show ?thesis by (intro conjI cx_attention_init a b cx_input_wf e conjunct2[OF t])
qed

text \<open>
  The claim as first stated (scores divided by \<open>head_dim\<close> once) fails: on the module
  \<open>cx_attention\<close> (\<open>head_dim = 2\<close>) and the input \<open>cx_input\<close> the first output element is
  \<open>2 e / (e + 1)\<close>, while a single division would give \<open>2 e\<^sup>2 / (e\<^sup>2 + 1)\<close>.
\<close>

theorem standard_attention_counterexample:
  "MultiHeadSelfAttention_forward cx_attention cx_input \<noteq>
   spec_standard_forward cx_attention cx_input (real (2 div 1))"
proof -
  have a: "(0::nat) < 1" and b: "(1::nat) dvd 2" by simp_all
  have "MultiHeadSelfAttention_forward cx_attention cx_input =
        spec_standard_forward cx_attention cx_input 4"
    using conjunct1[OF standard_forward_eq[OF cx_attention_init a b cx_input_wf]] by simp
  then have code: "MultiHeadSelfAttention_forward cx_attention cx_input =
      Some \<lparr>shape = [1, 1, 2, 2], data = [exp (4 / 4) / (exp (4 / 4) + 1) * 2, 0, 1 / 2 * 2, 0]\<rparr>"
    by (simp only: cx_spec)
  have spec: "spec_standard_forward cx_attention cx_input (real (2 div 1)) =
      Some \<lparr>shape = [1, 1, 2, 2], data = [exp (4 / 2) / (exp (4 / 2) + 1) * 2, 0, 1 / 2 * 2, 0]\<rparr>"
    using cx_spec[of 2] by simp
  show ?thesis
  proof
    assume "MultiHeadSelfAttention_forward cx_attention cx_input =
            spec_standard_forward cx_attention cx_input (real (2 div 1))"
    then have "exp (4 / 4) / (exp (4 / 4) + 1) * 2 = exp (4 / 2) / (exp (4 / 2) + 1) * (2::real)"
      unfolding code spec by simp
    moreover have "u * 2 = v * 2 \<Longrightarrow> u = v" for u v :: real by simp
    ultimately have "exp (4 / 4) / (exp (4 / 4) + 1) = exp (4 / 2) / (exp (4 / 2) + (1::real))"
      by blast
    with logistic_exp_neq show False by simp
  qed
qed

section \<open>Transposed attention\<close>

text \<open>
  Claim C2. For every well-formed input of shape \<open>(B, N, L, C)\<close> and every transposed
  attention module constructed for \<open>C\<close> channels and \<open>nh > 0\<close> heads with \<open>nh\<close> dividing
  \<open>C\<close>, \<open>MultiHeadSelfAttention.forward\<close> computes, per head,
  \<open>softmax(Q\<^sup>T \<cdot> K / L\<^sup>2) \<cdot> V\<^sup>T\<close> with the softmax over the last (channel) axis, permutes
  the result back to \<open>(B, N, L, heads, head_dim)\<close>, flattens the heads and applies the
  output projection; the result exists and has the shape of the input.
\<close>

theorem transposed_attention_scaling:
  assumes "MultiHeadSelfAttention_init C True nh m" and "0 < nh" and "nh dvd C"
    and "wf_tensor x" and "shape x = [B, N, L, C]"
  shows "MultiHeadSelfAttention_forward m x = spec_transposed_forward m x (real L ^ 2) \<and>
         (\<exists>y. MultiHeadSelfAttention_forward m x = Some y \<and> shape y = [B, N, L, C] \<and> wf_tensor y)"
  unfolding power2_eq_square using assms by (rule transposed_forward_eq)

text \<open>
  On the module \<open>cx_transposed\<close> and the input \<open>cx_input\<close> (\<open>L = 2\<close>) the scores are
  \<open>Q\<^sup>T \<cdot> K / 4\<close>, the first output element is \<open>2 e / (e + 1)\<close>, and dividing by \<open>L\<close> only once
  would give a different output.
\<close>

theorem transposed_attention_scaling_witness:
  "MultiHeadSelfAttention_init 2 True 1 cx_transposed \<and> (0::nat) < 1 \<and> (1::nat) dvd 2 \<and>
   wf_tensor cx_input \<and> shape cx_input = [1, 1, 2, 2] \<and>
   MultiHeadSelfAttention_forward cx_transposed cx_input =
     spec_transposed_forward cx_transposed cx_input ((2::real) ^ 2) \<and>
   MultiHeadSelfAttention_forward cx_transposed cx_input =
     Some \<lparr>shape = [1, 1, 2, 2], data = [exp 1 / (exp 1 + 1) * 2, 1, 0, 0]\<rparr> \<and>
   MultiHeadSelfAttention_forward cx_transposed cx_input \<noteq>
     spec_transposed_forward cx_transposed cx_input 2"
proof -
  have a: "(0::nat) < 1" and b: "(1::nat) dvd 2" by simp_all
  note t = transposed_attention_scaling[OF cx_transposed_init a b cx_input_wf]
  have e: "MultiHeadSelfAttention_forward cx_transposed cx_input =
           spec_transposed_forward cx_transposed cx_input ((2::real) ^ 2)"
    using conjunct1[OF t] by simp
  have "spec_transposed_forward cx_transposed cx_input ((2::real) ^ 2) =
        Some \<lparr>shape = [1, 1, 2, 2], data = [exp 1 / (exp 1 + 1) * 2, 1, 0, 0]\<rparr>"
    using cx_transposed_spec[of 4] by simp
  with e have v: "MultiHeadSelfAttention_forward cx_transposed cx_input =
      Some \<lparr>shape = [1, 1, 2, 2], data = [exp 1 / (exp 1 + 1) * 2, 1, 0, 0]\<rparr>"
    by simp
  have w: "spec_transposed_forward cx_transposed cx_input 2 =
      Some \<lparr>shape = [1, 1, 2, 2], data = [exp 2 / (exp 2 + 1) * 2, 1, 0, 0]\<rparr>"
    using cx_transposed_spec[of 2] by simp
  have n: "MultiHeadSelfAttention_forward cx_transposed cx_input \<noteq>
     spec_transposed_forward cx_transposed cx_input 2"
  proof
    assume "MultiHeadSelfAttention_forward cx_transposed cx_input =
            spec_transposed_forward cx_transposed cx_input 2"
    then have "exp 1 / (exp 1 + 1) * 2 = exp 2 / (exp 2 + 1) * (2::real)"
      unfolding v w by simp
    moreover have "u * 2 = v * 2 \<Longrightarrow> u = v" for u v :: real by simp
    ultimately have "exp 1 / (exp 1 + 1) = exp 2 / (exp 2 + (1::real))" by blast
    with logistic_exp_neq show False by simp
  qed
  show ?thesis by (intro conjI cx_transposed_init a b cx_input_wf e v n)
qed

section \<open>Structure of the attention block\<close>

text \<open>
  Claim C6. Let \<open>m\<close> be an attention block constructed for \<open>C\<close> channels, mode \<open>tr\<close>, window
  size \<open>ws\<close> and \<open>nh > 0\<close> heads with \<open>nh\<close> dividing \<open>C\<close>, and \<open>x\<close> a well-formed input of shape
  \<open>(B, C, H, W)\<close>, with \<open>ws > 0\<close> dividing \<open>H\<close> and \<open>W\<close> when \<open>tr\<close> is false. Then
  \<open>AttentionBlock.forward\<close> succeeds and goes through these steps: the input is
  partitioned into \<open>ws \<times> ws\<close> windows (\<open>tr\<close> false) or taken as one window (\<open>tr\<close> true) and
  flattened to a sequence \<open>s\<close> of shape \<open>(B, windows, positions, C)\<close>; \<open>s1\<close> is the
  element-wise sum of \<open>s\<close> and the attention of \<open>norm1 s\<close>; \<open>s2\<close> is the element-wise sum of
  \<open>s1\<close> and the result of the two linear layers, the first widening \<open>norm2 s1\<close> to \<open>4 C\<close>
  channels, with the activation between them; the output is \<open>s2\<close> unflattened (and
  un-partitioned), of shape \<open>(B, C, H, W)\<close>. The block is a function of \<open>m\<close> and \<open>x\<close> only.
\<close>

theorem attention_block_structure:
  assumes "AttentionBlock_init C tr ws nh m" and "0 < nh" and "nh dvd C"
    and "wf_tensor x" and "shape x = [B, C, H, W]"
    and "\<not> tr \<longrightarrow> 0 < ws \<and> ws dvd H \<and> ws dvd W"
  shows "\<exists>s n1 a s1 n2 h1 h s2 y.
     (if tr then unsqueeze x 1 else window_partition x ws) \<bind> spatial_flatten = Some s \<and>
     shape s = (if tr then [B, 1, H * W, C] else [B, H div ws * (W div ws), ws * ws, C]) \<and>
     layer_norm (norm1 m) s = Some n1 \<and>
     MultiHeadSelfAttention_forward (window_attention m) n1 = Some a \<and>
     s1 = \<lparr>shape = shape s, data = map2 (+) (data s) (data a)\<rparr> \<and>
     layer_norm (norm2 m) s1 = Some n2 \<and>
     linear (mlp_fc1 m) n2 = Some h1 \<and> shape h1 = butlast (shape s) @ [C * 4] \<and>
     linear (mlp_fc2 m) (tmap (mlp_act m) h1) = Some h \<and>
     s2 = \<lparr>shape = shape s, data = map2 (+) (data s1) (data h)\<rparr> \<and>
     (if tr then spatial_unflatten s2 H W \<bind> (\<lambda>t. squeeze t 1)
      else spatial_unflatten s2 ws ws \<bind> (\<lambda>t. window_unpartition t H W)) = Some y \<and>
     AttentionBlock_forward m x = Some y \<and> shape y = [B, C, H, W] \<and> wf_tensor y"
  using assms by (rule attention_block_steps)

theorem attention_block_structure_witness:
  "AttentionBlock_init 2 False 2 1 (example_block 2 False 2 1) \<and> (0::nat) < 1 \<and> (1::nat) dvd 2 \<and>
   wf_tensor \<lparr>shape = [1, 2, 4, 4], data = replicate 32 (0::real)\<rparr> \<and>
   (0::nat) < 2 \<and> (2::nat) dvd 4 \<and>
   (\<exists>s y. window_partition \<lparr>shape = [1, 2, 4, 4], data = replicate 32 (0::real)\<rparr> 2 \<bind> spatial_flatten
        = Some s \<and>
      shape s = [1, 4, 4, 2] \<and>
      AttentionBlock_forward (example_block 2 False 2 1) \<lparr>shape = [1, 2, 4, 4], data = replicate 32 0\<rparr>
        = Some y \<and> shape y = [1, 2, 4, 4] \<and> wf_tensor y)"
proof -
  let ?x = "\<lparr>shape = [1, 2, 4, 4], data = replicate 32 (0::real)\<rparr>"
  have a: "(0::nat) < 1" and b: "(1::nat) dvd 2" and c: "(0::nat) < 2" and d: "(2::nat) dvd 4"
    by simp_all
  have wf: "wf_tensor ?x" by (simp add: wf_tensor_def)
  have sx: "shape ?x = [1, 2, 4, 4]" by simp
  have win: "\<not> False \<longrightarrow> (0::nat) < 2 \<and> (2::nat) dvd 4 \<and> (2::nat) dvd 4" by simp
  from attention_block_structure[OF example_block_init a b wf sx win]
  obtain s y where
    "(if False then unsqueeze ?x 1 else window_partition ?x 2) \<bind> spatial_flatten = Some s"
    "shape s = (if False then [1, 1, 4 * 4, 2] else [1, 4 div 2 * (4 div 2), 2 * 2, 2])"
    "AttentionBlock_forward (example_block 2 False 2 1) ?x = Some y"
    "shape y = [1, 2, 4, 4]" "wf_tensor y"
    by blast
  then have e: "\<exists>s y. window_partition ?x 2 \<bind> spatial_flatten = Some s \<and> shape s = [1, 4, 4, 2] \<and>
      AttentionBlock_forward (example_block 2 False 2 1) ?x = Some y \<and> shape y = [1, 2, 4, 4] \<and>
      wf_tensor y"
    by simp
  show ?thesis by (intro conjI example_block_init a b c d wf e)
qed

section \<open>The transposed block and the window size\<close>

text \<open>
  Claim C10. For a block with \<open>transposed = True\<close>, replacing the window size by any
  other value \<open>w\<close> and leaving every other field as it is does not change the result of
  \<open>AttentionBlock.forward\<close> on any input; and when the block is one the constructor
  builds for \<open>C\<close> channels and \<open>nh > 0\<close> heads dividing \<open>C\<close>, forward succeeds on every
  well-formed input of shape \<open>(B, C, H, W)\<close>, whatever \<open>H\<close>, \<open>W\<close> and the window size are.
\<close>

theorem transposed_block_ignores_window_size:
  assumes "transposed m"
  shows "AttentionBlock_forward (m\<lparr>window_size := w\<rparr>) x = AttentionBlock_forward m x \<and>
         (AttentionBlock_init C True ws nh m \<and> 0 < nh \<and> nh dvd C \<and> wf_tensor x \<and>
          shape x = [B, C, H, W] \<longrightarrow>
            (\<exists>y. AttentionBlock_forward m x = Some y \<and> shape y = [B, C, H, W]))"
proof
  show "AttentionBlock_forward (m\<lparr>window_size := w\<rparr>) x = AttentionBlock_forward m x"
    using assms by (simp add: AttentionBlock_forward_def mlp_def cong: list.case_cong)
next
  show "AttentionBlock_init C True ws nh m \<and> 0 < nh \<and> nh dvd C \<and> wf_tensor x \<and>
          shape x = [B, C, H, W] \<longrightarrow>
            (\<exists>y. AttentionBlock_forward m x = Some y \<and> shape y = [B, C, H, W])"
  proof
    assume h: "AttentionBlock_init C True ws nh m \<and> 0 < nh \<and> nh dvd C \<and> wf_tensor x \<and>
          shape x = [B, C, H, W]"
    have "\<not> True \<longrightarrow> 0 < ws \<and> ws dvd H \<and> ws dvd W" by simp
    from attention_block_shape[OF _ _ _ _ _ this, of C nh m x B] h
    show "\<exists>y. AttentionBlock_forward m x = Some y \<and> shape y = [B, C, H, W]" by blast
  qed
qed

theorem transposed_block_ignores_window_size_witness:
  "transposed (example_block 2 True 2 1) \<and>
   AttentionBlock_init 2 True 2 1 (example_block 2 True 2 1) \<and> (0::nat) < 1 \<and> (1::nat) dvd 2 \<and>
   wf_tensor \<lparr>shape = [1, 2, 3, 5], data = replicate 30 (0::real)\<rparr> \<and>
   AttentionBlock_forward ((example_block 2 True 2 1)\<lparr>window_size := 7\<rparr>)
       \<lparr>shape = [1, 2, 3, 5], data = replicate 30 0\<rparr> =
     AttentionBlock_forward (example_block 2 True 2 1) \<lparr>shape = [1, 2, 3, 5], data = replicate 30 0\<rparr> \<and>
   (\<exists>y. AttentionBlock_forward (example_block 2 True 2 1) \<lparr>shape = [1, 2, 3, 5], data = replicate 30 0\<rparr>
          = Some y \<and> shape y = [1, 2, 3, 5])"
proof -
  let ?x = "\<lparr>shape = [1, 2, 3, 5], data = replicate 30 (0::real)\<rparr>"
  let ?m = "example_block 2 True 2 1"
  have tr: "transposed ?m" by (simp add: example_block_def)
  have a: "(0::nat) < 1" and b: "(1::nat) dvd 2" by simp_all
  have wf: "wf_tensor ?x" by (simp add: wf_tensor_def)
  have sx: "shape ?x = [1, 2, 3, 5]" by simp
  note t = transposed_block_ignores_window_size[OF tr, of 7 ?x 2 2 1 1 3 5]
  have 1: "AttentionBlock_forward (?m\<lparr>window_size := 7\<rparr>) ?x = AttentionBlock_forward ?m ?x"
    using t by (rule conjunct1)
  have 2: "\<exists>y. AttentionBlock_forward ?m ?x = Some y \<and> shape y = [1, 2, 3, 5]"
    using conjunct2[OF t] example_block_init[of 2 True 2 1] a b wf sx by blast
  show ?thesis by (intro conjI tr example_block_init a b wf 1 2)
qed

section \<open>The super-resolution pipeline\<close>

text \<open>
  Claim C5. Let \<open>m\<close> be a network built by \<open>TransformerSR(factor, groups, nb, d, ws, nh, ci, co)\<close>
  with non-zero residual periods, \<open>nh > 0\<close> dividing \<open>d\<close>, \<open>ws > 0\<close>, \<open>factor > 0\<close> and positive
  channel counts \<open>ci\<close>, \<open>d\<close>, \<open>co\<close>, and \<open>x\<close> a well-formed input of shape \<open>(B, ci, H, W)\<close> with
  \<open>H, W > 0\<close> divisible by \<open>ws\<close>. Then
  \<open>TransformerSR.forward\<close> succeeds: 0.5 is subtracted and the first convolution gives
  \<open>(B, d, H, W)\<close>; the block loop keeps that shape; the last convolution gives
  \<open>co * factor\<^sup>2\<close> channels; the pixel shuffle moves channel \<open>c * factor\<^sup>2 + i * factor + j\<close> at
  \<open>(h, w)\<close> to channel \<open>c\<close> at \<open>(h * factor + i, w * factor + j)\<close>; 0.5 is added, and the result has
  shape \<open>(B, co, H * factor, W * factor)\<close>. The claim's case is \<open>B = 1\<close>, \<open>ci = co = 3\<close>.
\<close>

theorem transformer_sr_pipeline:
  assumes "TransformerSR_init factor groups nb d ws nh ci co m"
    and "0 \<notin> set groups" and "0 < nh" and "nh dvd d"
    and "0 < ws" and "ws dvd H" and "ws dvd W" and "0 < factor"
    and "0 < ci" and "0 < d" and "0 < co"
    and "0 < H" and "0 < W"
    and "wf_tensor x" and "shape x = [B, ci, H, W]"
  shows "\<exists>x1 x2 r x3 x4 y.
     conv2d (in_conv m) (sub_scalar x (1 / 2)) = Some x1 \<and> shape x1 = [B, d, H, W] \<and>
     run_blocks 0 (map block_pair (sr_blocks m)) (x1, init_residual groups) = Some (x2, r) \<and>
     shape x2 = [B, d, H, W] \<and>
     conv2d (out_conv m) x2 = Some x3 \<and> shape x3 = [B, co * (factor * factor), H, W] \<and>
     pixel_shuffle factor x3 = Some x4 \<and> shape x4 = [B, co, H * factor, W * factor] \<and>
     (\<forall>b c h w i j. b < B \<and> c < co \<and> h < H \<and> w < W \<and> i < factor \<and> j < factor \<longrightarrow>
        data x4 ! ravel [B, co, H * factor, W * factor] [b, c, h * factor + i, w * factor + j] =
        data x3 ! ravel [B, co * (factor * factor), H, W]
                    [b, c * (factor * factor) + i * factor + j, h, w]) \<and>
     y = add_scalar x4 (1 / 2) \<and>
     TransformerSR_forward m x = Some y \<and> shape y = [B, co, H * factor, W * factor] \<and> wf_tensor y"
  using assms by (rule transformer_sr_steps)

theorem transformer_sr_pipeline_witness:
  "TransformerSR_init 2 [2] 4 2 2 1 3 3 example_sr \<and> (0::int) \<notin> set [2] \<and>
   (0::nat) < 1 \<and> (1::nat) dvd 2 \<and> (0::nat) < 2 \<and> (2::nat) dvd 4 \<and> (0::nat) < 3 \<and> (0::nat) < 4 \<and>
   wf_tensor (example_image 4 4) \<and> shape (example_image 4 4) = [1, 3, 4, 4] \<and>
   (\<exists>y. TransformerSR_forward example_sr (example_image 4 4) = Some y \<and>
        shape y = [1, 3, 8, 8] \<and> wf_tensor y)"
proof -
  have g: "(0::int) \<notin> set [2]" by simp
  have a: "(0::nat) < 1" and b: "(1::nat) dvd 2" and c: "(0::nat) < 2" and d: "(2::nat) dvd 4"
    and e: "(0::nat) < 4" by simp_all
  have f: "(0::nat) < 3" by simp
  from transformer_sr_pipeline[OF example_sr_init g a b c d d c f c f e e example_image_wf]
  obtain y where "TransformerSR_forward example_sr (example_image 4 4) = Some y"
    "shape y = [1, 3, 4 * 2, 4 * 2]" "wf_tensor y" by blast
  then have r: "\<exists>y. TransformerSR_forward example_sr (example_image 4 4) = Some y \<and>
        shape y = [1, 3, 8, 8] \<and> wf_tensor y" by simp
  show ?thesis by (intro conjI example_sr_init g a b c d f e example_image_wf r)
qed

section \<open>The classifier pipeline\<close>

text \<open>
  Claim C7. When \<open>dims\<close> is non-empty and has an entry for every stage, the constructor of
  \<open>Classifier\<close> builds exactly the layers the specification lists. Every list of layers
  so built consists of the first convolution, then for every stage \<open>i\<close> (after the first, a
  kernel-2 stride-2 convolution from \<open>dims[i - 1]\<close> to \<open>dims[i]\<close> channels and)
  \<open>groups[i]\<close> block-pairs, a windowed and a full-image block at window size
  \<open>window_size // 2\<^sup>i\<close>, then pooling, flattening and the linear projection from the last
  entry of \<open>dims\<close> to \<open>num_classes\<close>; and \<open>Classifier.forward\<close> on such a list is, on every
  input, the pipeline of the specification: subtract 0.5, the first convolution, each
  stage (its convolution, then its pairs in order), global average pooling to 1 by 1,
  flattening from axis 1, the linear projection. In particular, with \<open>groups = [1, 1]\<close>,
  \<open>dims = [16, 32]\<close>, \<open>window_size = 8\<close> and \<open>nh > 0\<close> heads dividing 16, the forward pass
  on a well-formed input of shape \<open>(1, 3, 64, 64)\<close> succeeds with shape \<open>(1, num_classes)\<close>.
\<close>

theorem classifier_pipeline:
  assumes "length groups \<le> length dims" and "dims \<noteq> []"
  shows "Classifier_init groups dims ws nh nc ic =
           Some (spec_classifier_layers groups dims ws nh nc ic) \<and>
         Classifier_forward (classifier_layers c0 stages lin) x =
           spec_classifier_forward c0 stages lin x \<and>
         (list_all2 layer_init (spec_classifier_layers groups dims ws nh nc ic) blocks \<longrightarrow>
            (\<exists>c stgs l. blocks = classifier_layers c stgs l \<and>
               Conv2d_init ic (dims ! 0) 3 1 1 c \<and>
               list_all2 (stage_init groups dims ws nh) [0..<length groups] stgs \<and>
               Linear_init (last dims) nc l \<and>
               Classifier_forward blocks x = spec_classifier_forward c stgs l x)) \<and>
         (list_all2 layer_init (spec_classifier_layers [1, 1] [16, 32] 8 nh nc 3) blocks \<and>
          0 < nh \<and> nh dvd 16 \<and> wf_tensor x \<and> shape x = [1, 3, 64, 64] \<longrightarrow>
            (\<exists>y. Classifier_forward blocks x = Some y \<and> shape y = [1, nc] \<and> wf_tensor y))"
proof (intro conjI impI)
  show "Classifier_init groups dims ws nh nc ic = Some (spec_classifier_layers groups dims ws nh nc ic)"
    using assms by (rule classifier_init_eq)
next
  show "Classifier_forward (classifier_layers c0 stages lin) x =
           spec_classifier_forward c0 stages lin x"
    by (rule classifier_forward_layers)
next
  assume "list_all2 layer_init (spec_classifier_layers groups dims ws nh nc ic) blocks"
  from classifier_decompose[OF this] obtain c stgs l where
    d: "blocks = classifier_layers c stgs l" "Conv2d_init ic (dims ! 0) 3 1 1 c"
      "list_all2 (stage_init groups dims ws nh) [0..<length groups] stgs"
      "Linear_init (last dims) nc l" by blast
  have "Classifier_forward blocks x = spec_classifier_forward c stgs l x"
    unfolding d(1) by (rule classifier_forward_layers)
  with d show "\<exists>c stgs l. blocks = classifier_layers c stgs l \<and>
               Conv2d_init ic (dims ! 0) 3 1 1 c \<and>
               list_all2 (stage_init groups dims ws nh) [0..<length groups] stgs \<and>
               Linear_init (last dims) nc l \<and>
               Classifier_forward blocks x = spec_classifier_forward c stgs l x"
    by blast
next
  assume "list_all2 layer_init (spec_classifier_layers [1, 1] [16, 32] 8 nh nc 3) blocks \<and>
          0 < nh \<and> nh dvd 16 \<and> wf_tensor x \<and> shape x = [1, 3, 64, 64]"
  then show "\<exists>y. Classifier_forward blocks x = Some y \<and> shape y = [1, nc] \<and> wf_tensor y"
    using classifier_example_shape[of nh nc blocks x] by blast
qed

theorem classifier_pipeline_witness:
  "length [1, 1::nat] \<le> length [16, 32::nat] \<and> [16, 32::nat] \<noteq> [] \<and>
   Classifier_init [1, 1] [16, 32] 8 4 10 3 =
     Some [Conv2d_spec 3 16 3 1 1,
           AttentionBlock_spec 16 False 8 4, AttentionBlock_spec 16 True 8 4,
           Conv2d_spec 16 32 2 2 0,
           AttentionBlock_spec 32 False 4 4, AttentionBlock_spec 32 True 4 4,
           AdaptiveAvgPool2d_spec 1, Flatten_spec, Linear_spec 32 10] \<and>
   list_all2 layer_init (spec_classifier_layers [1, 1] [16, 32] 8 4 10 3) example_classifier \<and>
   (0::nat) < 4 \<and> (4::nat) dvd 16 \<and> wf_tensor (example_image 64 64) \<and>
   shape (example_image 64 64) = [1, 3, 64, 64] \<and>
   Classifier_forward example_classifier (example_image 64 64) =
     spec_classifier_forward (example_conv 3 16 3 1 1) example_stages (example_linear 32 10)
       (example_image 64 64) \<and>
   (\<exists>c stgs l. example_classifier = classifier_layers c stgs l \<and>
        Conv2d_init 3 16 3 1 1 c \<and> Linear_init 32 10 l \<and> length stgs = 2 \<and>
        Classifier_forward example_classifier (example_image 64 64) =
          spec_classifier_forward c stgs l (example_image 64 64)) \<and>
   (\<exists>y. Classifier_forward example_classifier (example_image 64 64) = Some y \<and>
        shape y = [1, 10] \<and> wf_tensor y) \<and>
   length [0::nat] \<le> length [1::nat] \<and> [1::nat] \<noteq> [] \<and>
   Classifier_forward tiny_classifier \<lparr>shape = [1, 1, 2, 2], data = [1, 2, 3, 4]\<rparr> =
     Some \<lparr>shape = [1, 2], data = [8, 17]\<rparr>"
proof -
  have a: "length [1, 1::nat] \<le> length [16, 32::nat]" and b: "[16, 32::nat] \<noteq> []"
    and c: "(0::nat) < 4" and d: "(4::nat) dvd 16" by simp_all
  note t = classifier_pipeline[OF a b, of 8 4 10 3 "example_conv 3 16 3 1 1" example_stages
              "example_linear 32 10" "example_image 64 64" example_classifier]
  have 1: "Classifier_init [1, 1] [16, 32] 8 4 10 3 =
     Some [Conv2d_spec 3 16 3 1 1,
           AttentionBlock_spec 16 False 8 4, AttentionBlock_spec 16 True 8 4,
           Conv2d_spec 16 32 2 2 0,
           AttentionBlock_spec 32 False 4 4, AttentionBlock_spec 32 True 4 4,
           AdaptiveAvgPool2d_spec 1, Flatten_spec, Linear_spec 32 10]"
    using conjunct1[OF t] unfolding spec_classifier_example .
  have 2: "Classifier_forward example_classifier (example_image 64 64) =
     spec_classifier_forward (example_conv 3 16 3 1 1) example_stages (example_linear 32 10)
       (example_image 64 64)"
    using conjunct1[OF conjunct2[OF t]] unfolding example_classifier_layers[symmetric] .
  have 3: "\<exists>y. Classifier_forward example_classifier (example_image 64 64) = Some y \<and>
        shape y = [1, 10] \<and> wf_tensor y"
    using conjunct2[OF conjunct2[OF conjunct2[OF t]]] example_classifier_init c d
      example_image_wf[of 64 64] by blast
  from conjunct1[OF conjunct2[OF conjunct2[OF t]]] example_classifier_init
  obtain c stgs l where dec: "example_classifier = classifier_layers c stgs l"
      "Conv2d_init 3 ([16, 32] ! 0) 3 1 1 c"
      "list_all2 (stage_init [1, 1] [16, 32] 8 4) [0..<length [1, 1::nat]] stgs"
      "Linear_init (last [16, 32]) 10 l"
      "Classifier_forward example_classifier (example_image 64 64) =
         spec_classifier_forward c stgs l (example_image 64 64)"
    by blast
  from dec(3) have "length stgs = 2" by (simp add: list_all2_lengthD[symmetric])
  with dec have 5: "\<exists>c stgs l. example_classifier = classifier_layers c stgs l \<and>
        Conv2d_init 3 16 3 1 1 c \<and> Linear_init 32 10 l \<and> length stgs = 2 \<and>
        Classifier_forward example_classifier (example_image 64 64) =
          spec_classifier_forward c stgs l (example_image 64 64)"
    by auto
  have e: "length [0::nat] \<le> length [1::nat]" and f: "[1::nat] \<noteq> []" by simp_all
  note u = classifier_pipeline[OF e f, of 8 1 2 1 tiny_conv "[(None, [])]" tiny_linear
              "\<lparr>shape = [1, 1, 2, 2], data = [1, 2, 3, 4]\<rparr>" tiny_classifier]
  have 4: "Classifier_forward tiny_classifier \<lparr>shape = [1, 1, 2, 2], data = [1, 2, 3, 4]\<rparr> =
     Some \<lparr>shape = [1, 2], data = [8, 17]\<rparr>"
    using conjunct1[OF conjunct2[OF u]]
    unfolding tiny_classifier_layers[symmetric] tiny_classifier_spec .
  show ?thesis
    by (intro conjI a b 1 example_classifier_init c d example_image_wf 2 5 3 e f 4)
qed

end
